theory Spec2Isabelle
  imports Main
begin

section \<open>Strings and integers of the C++ source\<close>

text \<open>
  The signalling client of \<^verbatim>\<open>examples/peerconnection/client/peer_connection_client.cc\<close>
  works on \<^verbatim>\<open>std::string\<close> buffers (byte strings, here \<^typ>\<open>string\<close>), on
  \<^verbatim>\<open>size_t\<close> (64 bits, unsigned) and on \<^verbatim>\<open>int\<close> (32 bits, signed).
  A \<^verbatim>\<open>size_t\<close> is a \<^typ>\<open>nat\<close> below \<open>2 ^ 64\<close> and an \<^verbatim>\<open>int\<close> an
  \<^typ>\<open>int\<close> in the 32-bit range; every conversion and every sum that can leave the
  range has its wrap-around written out.
\<close>

definition CR :: char where
  "CR = CHR 0x0D"

definition LF :: char where
  "LF = CHR 0x0A"

definition NUL :: char where
  "NUL = CHR 0x00"

definition CRLF :: string where
  "CRLF = [CR, LF]"

definition npos :: nat where
  "npos = 2 ^ 64 - 1"

definition wrap_int :: "int \<Rightarrow> int" where
  \<comment> \<open>the 32-bit two's complement value of an integer\<close>
  "wrap_int v = (let r = v mod 2 ^ 32 in if r < 2 ^ 31 then r else r - 2 ^ 32)"

definition size_t_of_int :: "int \<Rightarrow> nat" where
  \<comment> \<open>the implicit conversion of \<^verbatim>\<open>*value = atoi(...)\<close> with \<^verbatim>\<open>size_t* value\<close>\<close>
  "size_t_of_int v = nat (v mod 2 ^ 64)"

definition int_of_size_t :: "nat \<Rightarrow> int" where
  \<comment> \<open>\<^verbatim>\<open>static_cast<int>(peer_id)\<close>\<close>
  "int_of_size_t n = wrap_int (int n)"

definition size_t_add :: "nat \<Rightarrow> nat \<Rightarrow> nat" where
  "size_t_add a b = (a + b) mod 2 ^ 64"

definition isspace :: "char \<Rightarrow> bool" where
  "isspace c = (c = CHR '' '' \<or> (9 \<le> (of_char c :: nat) \<and> (of_char c :: nat) \<le> 13))"

definition isdigit :: "char \<Rightarrow> bool" where
  "isdigit c = (48 \<le> (of_char c :: nat) \<and> (of_char c :: nat) \<le> 57)"

fun atoi_digits :: "int \<Rightarrow> string \<Rightarrow> int" where
  "atoi_digits acc [] = acc"
| "atoi_digits acc (c # cs) =
     (if isdigit c then atoi_digits (acc * 10 + (of_char c - 48)) cs else acc)"

definition atoi :: "string \<Rightarrow> int" where
  \<comment> \<open>C's \<^verbatim>\<open>atoi\<close>: leading white space, an optional sign, then decimal digits up to
      the first other character; 0 when there is no digit. C leaves a value outside
      \<^verbatim>\<open>int\<close> undefined; the model wraps it to 32 bits.\<close>
  "atoi s =
     wrap_int
       (case dropWhile isspace s of
          [] \<Rightarrow> 0
        | c # cs \<Rightarrow>
            if c = CHR ''-'' then - atoi_digits 0 cs
            else if c = CHR ''+'' then atoi_digits 0 cs
            else atoi_digits 0 (c # cs))"

definition c_str :: "string \<Rightarrow> string" where
  \<comment> \<open>what a \<^verbatim>\<open>const char*\<close> reader sees of a \<^verbatim>\<open>std::string\<close>: the bytes before the first NUL\<close>
  "c_str s = takeWhile (\<lambda>c. c \<noteq> NUL) s"

fun starts_with :: "string \<Rightarrow> string \<Rightarrow> bool" where
  "starts_with [] t = True"
| "starts_with (p # ps) [] = False"
| "starts_with (p # ps) (c # cs) = (p = c \<and> starts_with ps cs)"

fun find_aux :: "string \<Rightarrow> string \<Rightarrow> nat \<Rightarrow> nat option" where
  "find_aux pat [] n = (if pat = [] then Some n else None)"
| "find_aux pat (c # cs) n =
     (if starts_with pat (c # cs) then Some n else find_aux pat cs (Suc n))"

definition str_find :: "string \<Rightarrow> string \<Rightarrow> nat \<Rightarrow> nat option" where
  \<comment> \<open>\<^verbatim>\<open>data.find(pat, pos)\<close>: the first index at or after \<open>pos\<close> where \<open>pat\<close> starts;
      \<open>None\<close> is \<^verbatim>\<open>std::string::npos\<close>\<close>
  "str_find data pat pos =
     (if pos \<le> length data then find_aux pat (drop pos data) pos else None)"

definition substr :: "string \<Rightarrow> nat \<Rightarrow> nat \<Rightarrow> string" where
  \<comment> \<open>\<^verbatim>\<open>s.substr(pos, n)\<close>; every call of the source has \<open>pos \<le> length s\<close>, where C++
      does not throw\<close>
  "substr s pos n = take n (drop pos s)"

definition digit_char :: "nat \<Rightarrow> char" where
  "digit_char d = ''0123456789'' ! (d mod 10)"

fun show_nat :: "nat \<Rightarrow> string" where
  "show_nat n =
     (if n < 10 then [digit_char n]
      else show_nat (n div 10) @ [digit_char (n mod 10)])"

declare show_nat.simps [simp del]

definition show_int :: "int \<Rightarrow> string" where
  \<comment> \<open>\<^verbatim>\<open>%i\<close> of \<^verbatim>\<open>snprintf\<close>\<close>
  "show_int i = (if i < 0 then CHR ''-'' # show_nat (nat (- i)) else show_nat (nat i))"

definition snprintf1024 :: "string \<Rightarrow> string" where
  \<comment> \<open>\<^verbatim>\<open>snprintf(buffer, sizeof(buffer), ...)\<close> into \<^verbatim>\<open>char buffer[1024]\<close>, read back as
      a C string: at most 1023 bytes are kept\<close>
  "snprintf1024 formatted = take 1023 formatted"

section \<open>The client object\<close>

text \<open>
  \<^verbatim>\<open>PeerConnectionClient\<close> as a record of its members. The two sockets are objects of
  the socket library; the client only reads their connection state, connects, closes,
  sends and receives, so a socket is its \<^verbatim>\<open>rtc::Socket::ConnState\<close>. The sockets
  exist from the first \<^verbatim>\<open>DoConnect\<close> on; the record describes the client from then on
  (before, both pointers are null and no method that dereferences them may be called).

  Three further fields record what the client does to its surroundings, in order: the
  calls it makes on its observer \<^verbatim>\<open>callback_\<close>, the byte strings it hands to
  \<^verbatim>\<open>Socket::Send\<close>, and the delayed tasks it posts on its thread. The observer is an
  external collaborator: a call on it is recorded and does not call back into the client.

  \<^verbatim>\<open>RTC_DCHECK\<close> is compiled out of release builds; the functions below are the release
  build.
\<close>

datatype State =
  NOT_CONNECTED | RESOLVING | SIGNING_IN | CONNECTED | SIGNING_OUT_WAITING | SIGNING_OUT

datatype ConnState = CS_CLOSED | CS_CONNECTING | CS_CONNECTED

datatype socket_ptr = ControlSocket | HangingGet

datatype buffer_ptr = ControlData | NotificationData

datatype callback =
    Cb_OnSignedIn
  | Cb_OnDisconnected
  | Cb_OnPeerConnected int string
  | Cb_OnPeerDisconnected int
  | Cb_OnMessageFromPeer int string
  | Cb_OnMessageSent int
  | Cb_OnServerConnectionFailure

datatype task = Task_DoConnect

record client =
  state :: State
  my_id :: int
  peers :: "int \<rightharpoonup> string"
  control_socket :: ConnState
  hanging_get :: ConnState
  onconnect_data :: string
  control_data :: string
  notification_data :: string
  resolver :: bool
  server_address :: "string \<times> int"
  client_name :: string
  callbacks :: "callback list"
  sent :: "(socket_ptr \<times> string) list"
  delayed_tasks :: "(nat \<times> task) list"

definition kByeMessage :: string where
  "kByeMessage = ''BYE''"

definition kReconnectDelay :: nat where
  \<comment> \<open>\<^verbatim>\<open>webrtc::TimeDelta::Seconds(2)\<close>, in milliseconds\<close>
  "kReconnectDelay = 2000"

definition ECONNREFUSED :: int where
  "ECONNREFUSED = 111"

definition SOCKET_ERROR :: int where
  "SOCKET_ERROR = -1"

definition new_client :: client where
  \<comment> \<open>the members as the constructor initialises them, together with the two sockets
      as the first \<^verbatim>\<open>DoConnect\<close> creates them (closed); the constructor itself leaves
      both pointers null\<close>
  "new_client =
     \<lparr> state = NOT_CONNECTED, my_id = -1, peers = Map.empty,
       control_socket = CS_CLOSED, hanging_get = CS_CLOSED,
       onconnect_data = [], control_data = [], notification_data = [],
       resolver = False, server_address = ([], 0), client_name = [],
       callbacks = [], sent = [], delayed_tasks = [] \<rparr>"

definition notify :: "callback \<Rightarrow> client \<Rightarrow> client" where
  \<comment> \<open>\<^verbatim>\<open>callback_->...\<close>\<close>
  "notify e s = s\<lparr>callbacks := callbacks s @ [e]\<rparr>"

subsection \<open>The socket library, as the client uses it\<close>

definition GetState :: "socket_ptr \<Rightarrow> client \<Rightarrow> ConnState" where
  "GetState p s = (case p of ControlSocket \<Rightarrow> control_socket s | HangingGet \<Rightarrow> hanging_get s)"

definition Socket_Close :: "socket_ptr \<Rightarrow> client \<Rightarrow> client" where
  "Socket_Close p s =
     (case p of
        ControlSocket \<Rightarrow> s\<lparr>control_socket := CS_CLOSED\<rparr>
      | HangingGet \<Rightarrow> s\<lparr>hanging_get := CS_CLOSED\<rparr>)"

definition Socket_Connect :: "bool \<Rightarrow> socket_ptr \<Rightarrow> client \<Rightarrow> int \<times> client" where
  \<comment> \<open>\<^verbatim>\<open>socket->Connect(server_address_)\<close>. Whether the attempt starts is the
      library's and the network's answer, the argument \<open>starts\<close>: a started attempt
      leaves the socket connecting and returns 0, a refused one returns
      \<^verbatim>\<open>SOCKET_ERROR\<close> and leaves the socket as it was.\<close>
  "Socket_Connect starts p s =
     (if starts then
        (0, case p of
              ControlSocket \<Rightarrow> s\<lparr>control_socket := CS_CONNECTING\<rparr>
            | HangingGet \<Rightarrow> s\<lparr>hanging_get := CS_CONNECTING\<rparr>)
      else (SOCKET_ERROR, s))"

definition Socket_Send :: "socket_ptr \<Rightarrow> string \<Rightarrow> client \<Rightarrow> client" where
  "Socket_Send p bytes s = s\<lparr>sent := sent s @ [(p, bytes)]\<rparr>"

fun Recv_loop :: "string list \<Rightarrow> string \<Rightarrow> string" where
  \<comment> \<open>the \<^verbatim>\<open>do ... while (true)\<close> of \<^verbatim>\<open>ReadIntoBuffer\<close>: the list holds what the
      successive calls of \<^verbatim>\<open>Recv\<close> return at this read event; an empty chunk, or the
      end of the list, is a return of \<open>bytes \<le> 0\<close>\<close>
  "Recv_loop [] data = data"
| "Recv_loop (chunk # chunks) data =
     (if chunk = [] then data else Recv_loop chunks (data @ chunk))"

definition get_buffer :: "buffer_ptr \<Rightarrow> client \<Rightarrow> string" where
  "get_buffer b s = (case b of ControlData \<Rightarrow> control_data s | NotificationData \<Rightarrow> notification_data s)"

definition set_buffer :: "buffer_ptr \<Rightarrow> string \<Rightarrow> client \<Rightarrow> client" where
  "set_buffer b d s =
     (case b of
        ControlData \<Rightarrow> s\<lparr>control_data := d\<rparr>
      | NotificationData \<Rightarrow> s\<lparr>notification_data := d\<rparr>)"

subsection \<open>Connecting, sending, signing out, closing\<close>

definition is_connected :: "client \<Rightarrow> bool" where
  "is_connected s = (my_id s \<noteq> -1)"

definition Close :: "client \<Rightarrow> client" where
  "Close s =
     (Socket_Close HangingGet (Socket_Close ControlSocket s))
       \<lparr>onconnect_data := [], peers := Map.empty, resolver := False,
        my_id := -1, state := NOT_CONNECTED\<rparr>"

definition ConnectControlSocket :: "bool \<Rightarrow> client \<Rightarrow> bool \<times> client" where
  "ConnectControlSocket starts s =
     (let (err, s1) = Socket_Connect starts ControlSocket s
      in if err = SOCKET_ERROR then (False, Close s1) else (True, s1))"

definition DoConnect :: "bool \<Rightarrow> client \<Rightarrow> client" where
  "DoConnect starts s =
     (let s1 = s\<lparr>control_socket := CS_CLOSED, hanging_get := CS_CLOSED\<rparr>;
          s2 = s1\<lparr>onconnect_data :=
                 snprintf1024 (''GET /sign_in?'' @ c_str (client_name s1) @ '' HTTP/1.0''
                               @ CRLF @ CRLF)\<rparr>;
          (ret, s3) = ConnectControlSocket starts s2;
          s4 = (if ret then s3\<lparr>state := SIGNING_IN\<rparr> else s3)
      in if \<not> ret then notify Cb_OnServerConnectionFailure s4 else s4)"

definition Connect ::
  "int \<Rightarrow> (string \<Rightarrow> bool) \<Rightarrow> bool \<Rightarrow> string \<Rightarrow> int \<Rightarrow> string \<Rightarrow> client \<Rightarrow> client" where
  \<comment> \<open>\<open>kDefaultServerPort\<close> is a constant of \<^verbatim>\<open>defaults.h\<close> and \<open>IsUnresolvedIP\<close> a
      method of the address class; both are parameters here\<close>
  "Connect kDefaultServerPort IsUnresolvedIP starts server port name s =
     (if state s \<noteq> NOT_CONNECTED then notify Cb_OnServerConnectionFailure s
      else if server = [] \<or> name = [] then notify Cb_OnServerConnectionFailure s
      else
        let port1 = (if port \<le> 0 then kDefaultServerPort else port);
            s1 = s\<lparr>server_address := (server, port1)\<rparr>;
            s2 = s1\<lparr>client_name := name\<rparr>
        in if IsUnresolvedIP (fst (server_address s2))
           then s2\<lparr>state := RESOLVING, resolver := True\<rparr>
           else DoConnect starts s2)"

definition OnResolveResult :: "bool \<Rightarrow> (string \<times> int) option \<Rightarrow> client \<Rightarrow> client" where
  \<comment> \<open>\<open>result\<close> is the resolved IPv4 address, \<open>None\<close> when the resolver reports an error
      or has no such address\<close>
  "OnResolveResult starts result s =
     (case result of
        None \<Rightarrow> (notify Cb_OnServerConnectionFailure s)\<lparr>resolver := False, state := NOT_CONNECTED\<rparr>
      | Some addr \<Rightarrow> DoConnect starts (s\<lparr>server_address := addr\<rparr>))"

definition message_request :: "int \<Rightarrow> int \<Rightarrow> string \<Rightarrow> string" where
  \<comment> \<open>the header block that \<^verbatim>\<open>SendToPeer\<close> formats, followed by the message\<close>
  "message_request self peer_id message =
     snprintf1024
       (''POST /message?peer_id='' @ show_int self @ ''&to='' @ show_int peer_id
        @ '' HTTP/1.0'' @ CRLF
        @ ''Content-Length: '' @ show_nat (length message) @ CRLF
        @ ''Content-Type: text/plain'' @ CRLF
        @ CRLF)
     @ message"

definition SendToPeer :: "bool \<Rightarrow> int \<Rightarrow> string \<Rightarrow> client \<Rightarrow> bool \<times> client" where
  "SendToPeer starts peer_id message s =
     (if state s \<noteq> CONNECTED then (False, s)
      else if \<not> is_connected s \<or> peer_id = -1 then (False, s)
      else ConnectControlSocket starts
             (s\<lparr>onconnect_data := message_request (my_id s) peer_id message\<rparr>))"

definition SendHangUp :: "bool \<Rightarrow> int \<Rightarrow> client \<Rightarrow> bool \<times> client" where
  "SendHangUp starts peer_id s = SendToPeer starts peer_id kByeMessage s"

definition IsSendingMessage :: "client \<Rightarrow> bool" where
  "IsSendingMessage s = (state s = CONNECTED \<and> GetState ControlSocket s \<noteq> CS_CLOSED)"

definition sign_out_request :: "int \<Rightarrow> string" where
  "sign_out_request self =
     snprintf1024 (''GET /sign_out?peer_id='' @ show_int self @ '' HTTP/1.0'' @ CRLF @ CRLF)"

definition SignOut :: "bool \<Rightarrow> client \<Rightarrow> bool \<times> client" where
  \<comment> \<open>for a client whose sockets exist: on a client that has not yet reached
      \<^verbatim>\<open>DoConnect\<close>, a call in a state other than \<^verbatim>\<open>NOT_CONNECTED\<close> and
      \<^verbatim>\<open>SIGNING_OUT\<close> dereferences the null \<^verbatim>\<open>hanging_get_\<close>\<close>
  "SignOut starts s =
     (if state s = NOT_CONNECTED \<or> state s = SIGNING_OUT then (True, s)
      else
        let s1 = (if GetState HangingGet s \<noteq> CS_CLOSED then Socket_Close HangingGet s else s)
        in if GetState ControlSocket s1 = CS_CLOSED then
             let s2 = s1\<lparr>state := SIGNING_OUT\<rparr>
             in if my_id s2 \<noteq> -1
                then ConnectControlSocket starts
                       (s2\<lparr>onconnect_data := sign_out_request (my_id s2)\<rparr>)
                else (True, s2)
           else (True, s1\<lparr>state := SIGNING_OUT_WAITING\<rparr>))"

definition OnConnect :: "socket_ptr \<Rightarrow> client \<Rightarrow> client" where
  "OnConnect socket s = (Socket_Send socket (onconnect_data s) s)\<lparr>onconnect_data := []\<rparr>"

definition wait_request :: "int \<Rightarrow> string" where
  "wait_request self =
     snprintf1024 (''GET /wait?peer_id='' @ show_int self @ '' HTTP/1.0'' @ CRLF @ CRLF)"

definition OnHangingGetConnect :: "socket_ptr \<Rightarrow> client \<Rightarrow> client" where
  "OnHangingGetConnect socket s = Socket_Send socket (wait_request (my_id s)) s"

definition OnMessageFromPeer :: "int \<Rightarrow> string \<Rightarrow> client \<Rightarrow> client" where
  "OnMessageFromPeer peer_id message s =
     (if length message = length kByeMessage \<and> message = kByeMessage
      then notify (Cb_OnPeerDisconnected peer_id) s
      else notify (Cb_OnMessageFromPeer peer_id message) s)"

subsection \<open>Reading responses\<close>

definition GetHeaderValue_size :: "string \<Rightarrow> nat \<Rightarrow> string \<Rightarrow> nat option" where
  \<comment> \<open>the overload with \<^verbatim>\<open>size_t* value\<close>: \<open>Some\<close> the value stored when it returns
      true, \<open>None\<close> when it returns false and leaves \<^verbatim>\<open>*value\<close> alone\<close>
  "GetHeaderValue_size data eoh header_pattern =
     (case str_find data header_pattern 0 of
        None \<Rightarrow> None
      | Some found \<Rightarrow>
          if found < eoh
          then Some (size_t_of_int (atoi (drop (found + length header_pattern) data)))
          else None)"

definition GetHeaderValue_string :: "string \<Rightarrow> nat \<Rightarrow> string \<Rightarrow> string option" where
  \<comment> \<open>the overload with \<^verbatim>\<open>std::string* value\<close>; \<open>end - begin\<close> is a \<^verbatim>\<open>size_t\<close>
      difference, and a count past the end of the string takes the rest of it\<close>
  "GetHeaderValue_string data eoh header_pattern =
     (case str_find data header_pattern 0 of
        None \<Rightarrow> None
      | Some found \<Rightarrow>
          if found < eoh then
            let begin = found + length header_pattern;
                end = (case str_find data CRLF begin of None \<Rightarrow> eoh | Some e \<Rightarrow> e)
            in Some (if begin \<le> end then substr data begin (end - begin)
                     else substr data begin (length data))
          else None)"

definition OnClose :: "bool \<Rightarrow> socket_ptr \<Rightarrow> int \<Rightarrow> client \<Rightarrow> client" where
  "OnClose starts socket err s =
     (let s1 = Socket_Close socket s
      in if err \<noteq> ECONNREFUSED then
           (if socket = HangingGet then
              (if state s1 = CONNECTED
               then snd (Socket_Connect starts HangingGet (Socket_Close HangingGet s1))
               else s1)
            else notify (Cb_OnMessageSent err) s1)
         else
           (if socket = ControlSocket
            then s1\<lparr>delayed_tasks := delayed_tasks s1 @ [(kReconnectDelay, Task_DoConnect)]\<rparr>
            else notify Cb_OnDisconnected (Close s1)))"

definition run_delayed_task :: "bool \<Rightarrow> client \<Rightarrow> client" where
  \<comment> \<open>the thread runs the oldest posted task once its delay has passed\<close>
  "run_delayed_task starts s =
     (case delayed_tasks s of
        [] \<Rightarrow> s
      | (delay, Task_DoConnect) # rest \<Rightarrow> DoConnect starts (s\<lparr>delayed_tasks := rest\<rparr>))"

definition kContentLength :: string where
  "kContentLength = CRLF @ ''Content-Length: ''"

definition kConnection :: string where
  "kConnection = CRLF @ ''Connection: ''"

definition kPragma :: string where
  "kPragma = CRLF @ ''Pragma: ''"

definition ReadIntoBuffer ::
  "bool \<Rightarrow> socket_ptr \<Rightarrow> buffer_ptr \<Rightarrow> string list \<Rightarrow> nat \<Rightarrow> client \<Rightarrow> bool \<times> nat \<times> client" where
  \<comment> \<open>returns \<open>ret\<close>, the value left in \<^verbatim>\<open>*content_length\<close>, and the client\<close>
  "ReadIntoBuffer starts socket data chunks content_length s =
     (let s1 = set_buffer data (Recv_loop chunks (get_buffer data s)) s;
          d = get_buffer data s1
      in case str_find d (CRLF @ CRLF) 0 of
           None \<Rightarrow> (False, content_length, s1)
         | Some i \<Rightarrow>
             (case GetHeaderValue_size d i kContentLength of
                None \<Rightarrow> (False, content_length, s1)
              | Some cl \<Rightarrow>
                  let total_response_size = size_t_add (i + 4) cl
                  in if length d \<ge> total_response_size then
                       (True, cl,
                        if GetHeaderValue_string d i kConnection = Some ''close''
                        then OnClose starts socket 0 (Socket_Close socket s1)
                        else s1)
                     else (False, cl, s1)))"

definition ParseEntry :: "string \<Rightarrow> string \<Rightarrow> int \<Rightarrow> bool \<times> string \<times> int \<times> bool" where
  \<comment> \<open>\<open>name\<close> and \<open>id0\<close> are what the caller's variables hold; returns the result and
      the three variables\<close>
  "ParseEntry entry name id0 =
     (case str_find entry '','' 0 of
        None \<Rightarrow> (name \<noteq> [], name, id0, False)
      | Some separator \<Rightarrow>
          let id1 = atoi (drop (separator + 1) entry);
              name1 = substr entry 0 separator;
              connected =
                (case str_find entry '','' (separator + 1) of
                   None \<Rightarrow> False
                 | Some separator2 \<Rightarrow> atoi (drop (separator2 + 1) entry) \<noteq> 0)
          in (name1 \<noteq> [], name1, id1, connected))"

definition GetResponseStatus :: "string \<Rightarrow> int" where
  "GetResponseStatus response =
     (case str_find response '' '' 0 of
        None \<Rightarrow> -1
      | Some pos \<Rightarrow> atoi (drop (pos + 1) response))"

definition ParseServerResponse ::
  "string \<Rightarrow> nat \<Rightarrow> nat \<Rightarrow> nat \<Rightarrow> client \<Rightarrow> bool \<times> nat \<times> nat \<times> client" where
  \<comment> \<open>returns the result, \<^verbatim>\<open>*peer_id\<close>, \<^verbatim>\<open>*eoh\<close> and the client; the status is read
      from \<^verbatim>\<open>response.c_str()\<close>\<close>
  "ParseServerResponse response content_length peer_id eoh s =
     (let status = GetResponseStatus (c_str response)
      in if status \<noteq> 200 then (False, peer_id, eoh, notify Cb_OnDisconnected (Close s))
         else
           case str_find response (CRLF @ CRLF) 0 of
             None \<Rightarrow> (False, peer_id, npos, s)
           | Some e \<Rightarrow>
               (True,
                (case GetHeaderValue_size response e kPragma of None \<Rightarrow> npos | Some v \<Rightarrow> v),
                e, s))"

definition OnRead_entry :: "string \<Rightarrow> client \<Rightarrow> client" where
  \<comment> \<open>the body of the \<^verbatim>\<open>while\<close> loop of \<^verbatim>\<open>OnRead\<close> for one line of the listing\<close>
  "OnRead_entry line s =
     (let (ok, name, id1, connected) = ParseEntry line [] 0
      in if ok \<and> id1 \<noteq> my_id s
         then notify (Cb_OnPeerConnected id1 name) (s\<lparr>peers := (peers s)(id1 \<mapsto> name)\<rparr>)
         else s)"

lemma find_aux_bounds:
  "find_aux pat t n = Some k \<Longrightarrow> pat \<noteq> [] \<Longrightarrow> n \<le> k \<and> k < n + length t"
proof (induction t arbitrary: n)
  case Nil
  then show ?case by simp
next
  case (Cons c cs)
  show ?case
  proof (cases "starts_with pat (c # cs)")
    case True
    with Cons.prems show ?thesis by simp
  next
    case False
    with Cons.prems have "find_aux pat cs (Suc n) = Some k" by simp
    from Cons.IH [OF this Cons.prems(2)] show ?thesis by simp
  qed
qed

lemma str_find_bounds:
  "str_find data pat pos = Some k \<Longrightarrow> pat \<noteq> [] \<Longrightarrow> pos \<le> k \<and> k < length data"
  unfolding str_find_def
  by (auto split: if_splits dest!: find_aux_bounds)

lemma control_data_OnRead_entry:
  "control_data (OnRead_entry line s) = control_data s"
  by (simp add: OnRead_entry_def notify_def split: prod.splits)

function OnRead_listing :: "nat \<Rightarrow> client \<Rightarrow> client" where
  \<comment> \<open>the \<^verbatim>\<open>while (pos < control_data_.size())\<close> loop of \<^verbatim>\<open>OnRead\<close>\<close>
  "OnRead_listing pos s =
     (if pos < length (control_data s) then
        (case str_find (control_data s) [LF] pos of
           None \<Rightarrow> s
         | Some eol \<Rightarrow>
             OnRead_listing (eol + 1)
               (OnRead_entry (substr (control_data s) pos (eol - pos)) s))
      else s)"
  by pat_completeness auto
termination
proof (relation "measure (\<lambda>(pos, s). length (control_data s) - pos)")
  show "wf (measure (\<lambda>(pos, s). length (control_data s) - pos))" by simp
next
  fix pos :: nat and s :: client and eol :: nat
  assume "pos < length (control_data s)" and "str_find (control_data s) [LF] pos = Some eol"
  then have "pos \<le> eol \<and> eol < length (control_data s)"
    using str_find_bounds [of "control_data s" "[LF]" pos eol] by simp
  then show "((eol + 1, OnRead_entry (substr (control_data s) pos (eol - pos)) s), pos, s)
                \<in> measure (\<lambda>(pos, s). length (control_data s) - pos)"
    by (simp add: control_data_OnRead_entry) arith
qed

declare OnRead_listing.simps [simp del]

definition OnRead :: "bool \<Rightarrow> bool \<Rightarrow> string list \<Rightarrow> client \<Rightarrow> client" where
  \<comment> \<open>\<open>starts_control\<close> and \<open>starts_notify\<close> answer the connection attempts on the
      control socket and on the hanging get\<close>
  "OnRead starts_control starts_notify chunks s =
     (let (ret, content_length, s1) =
            ReadIntoBuffer starts_notify ControlSocket ControlData chunks 0 s
      in if ret then
           let (ok, peer_id, eoh, s2) =
                 ParseServerResponse (control_data s1) content_length 0 0 s1;
               s3 =
                 (if ok then
                    (if my_id s2 = -1 then
                       let s2a = s2\<lparr>my_id := int_of_size_t peer_id\<rparr>;
                           s2b = (if content_length \<noteq> 0 then OnRead_listing (eoh + 4) s2a
                                  else s2a)
                       in notify Cb_OnSignedIn s2b
                     else if state s2 = SIGNING_OUT then notify Cb_OnDisconnected (Close s2)
                     else if state s2 = SIGNING_OUT_WAITING then snd (SignOut starts_control s2)
                     else s2)
                  else s2);
               s4 = s3\<lparr>control_data := []\<rparr>
           in if state s4 = SIGNING_IN
              then snd (Socket_Connect starts_notify HangingGet (s4\<lparr>state := CONNECTED\<rparr>))
              else s4
         else s1)"

definition OnHangingGetRead :: "bool \<Rightarrow> bool \<Rightarrow> string list \<Rightarrow> client \<Rightarrow> client" where
  \<comment> \<open>\<open>starts1\<close> answers the reconnection inside \<^verbatim>\<open>ReadIntoBuffer\<close>, \<open>starts2\<close> the one
      at the end of the function\<close>
  "OnHangingGetRead starts1 starts2 chunks s =
     (let (ret, content_length, s1) =
            ReadIntoBuffer starts1 HangingGet NotificationData chunks 0 s;
          s5 =
            (if ret then
               let (ok, peer_id, eoh, s2) =
                     ParseServerResponse (notification_data s1) content_length 0 0 s1;
                   s3 =
                     (if ok then
                        let pos = eoh + 4
                        in if my_id s2 = int_of_size_t peer_id then
                             let (okp, name, id1, connected) =
                                   ParseEntry
                                     (substr (notification_data s2) pos
                                        (length (notification_data s2)))
                                     [] 0
                             in if okp then
                                  (if connected
                                   then notify (Cb_OnPeerConnected id1 name)
                                          (s2\<lparr>peers := (peers s2)(id1 \<mapsto> name)\<rparr>)
                                   else notify (Cb_OnPeerDisconnected id1)
                                          (s2\<lparr>peers := (peers s2)(id1 := None)\<rparr>))
                                else s2
                           else OnMessageFromPeer (int_of_size_t peer_id)
                                  (substr (notification_data s2) pos
                                     (length (notification_data s2)))
                                  s2
                      else s2)
               in s3\<lparr>notification_data := []\<rparr>
             else s1)
      in if GetState HangingGet s5 = CS_CLOSED \<and> state s5 = CONNECTED
         then snd (Socket_Connect starts2 HangingGet s5)
         else s5)"

section \<open>The peer listing of the specification\<close>

text \<open>
  The specification describes the body of a sign-in response as a newline-delimited
  listing with entries \<^verbatim>\<open>name,id,connected\<close>. The definitions of this section follow
  those words, not the code: the lines of a body are its newline-terminated pieces, and a
  line is an entry when it has a comma and a non-empty name before it, with the number
  after that comma as its id. They are compared with the loop of \<^verbatim>\<open>OnRead\<close> below.
\<close>

fun spec_lines_from :: "string \<Rightarrow> string \<Rightarrow> string list" where
  "spec_lines_from acc [] = []"
| "spec_lines_from acc (c # cs) =
     (if c = LF then rev acc # spec_lines_from [] cs else spec_lines_from (c # acc) cs)"

definition spec_lines :: "string \<Rightarrow> string list" where
  "spec_lines body = spec_lines_from [] body"

definition spec_entry :: "string \<Rightarrow> (int \<times> string) option" where
  "spec_entry line =
     (let name = takeWhile (\<lambda>c. c \<noteq> CHR '','') line
      in if CHR '','' \<in> set line \<and> name \<noteq> []
         then Some (atoi (tl (dropWhile (\<lambda>c. c \<noteq> CHR '','') line)), name)
         else None)"

definition spec_listing :: "string \<Rightarrow> (int \<times> string) list" where
  "spec_listing body = List.map_filter spec_entry (spec_lines body)"

definition add_peer :: "int \<times> string \<Rightarrow> (int \<rightharpoonup> string) \<Rightarrow> (int \<rightharpoonup> string)" where
  \<comment> \<open>an entry \<open>(id, name)\<close> entered into a peer directory\<close>
  "add_peer e m = m(fst e \<mapsto> snd e)"

definition peer_connected :: "int \<times> string \<Rightarrow> callback" where
  \<comment> \<open>the observer call that reports an entry\<close>
  "peer_connected e = Cb_OnPeerConnected (fst e) (snd e)"

definition sign_in_example :: string where
  \<comment> \<open>the sign-in response of the specification's example\<close>
  "sign_in_example =
     ''HTTP/1.0 200 OK'' @ CRLF @ ''Pragma: 3'' @ CRLF @ ''Content-Length: 18'' @ CRLF @ CRLF
     @ ''alice,7,1'' @ [LF] @ ''bob,8,1'' @ [LF]"

section \<open>A single response\<close>

text \<open>
  The byte sequences that the specification calls an HTTP response of this protocol: a
  header block that ends at the first blank line and carries a \<^verbatim>\<open>Content-Length\<close>
  header whose value begins with a digit, followed by exactly that many body bytes. (The
  header name ends before the blank line begins, so the index of that digit is inside the
  string.)
\<close>

definition one_response :: "string \<Rightarrow> bool" where
  "one_response r =
     (case str_find r (CRLF @ CRLF) 0 of
        None \<Rightarrow> False
      | Some i \<Rightarrow>
          (case str_find r kContentLength 0 of
             None \<Rightarrow> False
           | Some f \<Rightarrow>
               f < i \<and> isdigit (r ! (f + length kContentLength))
               \<and> length r = i + 4 + size_t_of_int (atoi (drop (f + length kContentLength) r))
               \<and> length r < 2 ^ 64))"

definition offer_example :: string where
  \<comment> \<open>a message of peer 7, as the hanging get receives it\<close>
  "offer_example =
     ''HTTP/1.0 200 OK'' @ CRLF @ ''Pragma: 7'' @ CRLF @ ''Content-Length: 5'' @ CRLF @ CRLF
     @ ''offer''"

section \<open>Clients and responses of the examples\<close>

abbreviation signed_in_idle :: client where
  \<comment> \<open>a signed-in client with id 3 whose control socket is closed\<close>
  "signed_in_idle \<equiv> new_client\<lparr>state := CONNECTED, my_id := 3\<rparr>"

abbreviation signed_in_busy :: client where
  \<comment> \<open>a signed-in client with id 3 whose control socket is connected: an exchange is in
      flight\<close>
  "signed_in_busy \<equiv> new_client\<lparr>state := CONNECTED, my_id := 3, control_socket := CS_CONNECTED\<rparr>"

abbreviation ok_reply :: string where
  "ok_reply \<equiv> ''HTTP/1.0 200 OK'' @ CRLF @ ''Content-Length: 0'' @ CRLF @ CRLF"

abbreviation ok_reply_close :: string where
  "ok_reply_close \<equiv>
     ''HTTP/1.0 200 OK'' @ CRLF @ ''Connection: close'' @ CRLF @ ''Content-Length: 0'' @ CRLF
     @ CRLF"

section \<open>Occurrences of a byte string and decimal numbers\<close>

text \<open>
  The conditions under which the framer reports a complete response are stated below
  without the search and conversion functions of the source. \<open>occurs_at pat d i\<close> says
  that the bytes of \<open>pat\<close> stand in \<open>d\<close> from index \<open>i\<close> on, and
  \<open>first_occurrence pat d i\<close> that \<open>i\<close> is the least such index; \<open>decimal\<close> is the
  number that a string of decimal digits denotes, and \<open>spec_content_length\<close> the content
  length that a header value denotes.
\<close>

definition occurs_at :: "string \<Rightarrow> string \<Rightarrow> nat \<Rightarrow> bool" where
  "occurs_at pat d i = (i + length pat \<le> length d \<and> take (length pat) (drop i d) = pat)"

definition first_occurrence :: "string \<Rightarrow> string \<Rightarrow> nat \<Rightarrow> bool" where
  "first_occurrence pat d i = (occurs_at pat d i \<and> list_all (\<lambda>j. \<not> occurs_at pat d j) [0..<i])"

fun decimal :: "string \<Rightarrow> nat" where
  "decimal [] = 0"
| "decimal (c # cs) = (of_char c - 48) * 10 ^ length cs + decimal cs"

definition spec_number :: "string \<Rightarrow> nat" where
  \<comment> \<open>the number that the decimal digits of a text denote, after optional white space
      and an optional sign; 0 when no digit stands there\<close>
  "spec_number t =
     (let u = dropWhile isspace t
      in decimal (takeWhile isdigit
           (if u \<noteq> [] \<and> (hd u = CHR ''-'' \<or> hd u = CHR ''+'') then tl u else u)))"

definition spec_negative :: "string \<Rightarrow> bool" where
  \<comment> \<open>the text has a minus sign after its white space\<close>
  "spec_negative t = (let u = dropWhile isspace t in u \<noteq> [] \<and> hd u = CHR ''-'')"

definition spec_content_length :: "string \<Rightarrow> nat" where
  \<comment> \<open>the number as a \<^verbatim>\<open>size_t\<close>: a negative number is taken modulo \<open>2 ^ 64\<close>\<close>
  "spec_content_length t =
     (if spec_negative t \<and> spec_number t \<noteq> 0 then 2 ^ 64 - spec_number t else spec_number t)"

section \<open>Evaluation and helper lemmas\<close>

lemmas prim_defs =
  CR_def LF_def NUL_def CRLF_def npos_def wrap_int_def size_t_of_int_def int_of_size_t_def
  size_t_add_def isspace_def isdigit_def atoi_def c_str_def str_find_def substr_def
  digit_char_def show_int_def snprintf1024_def show_nat.simps

lemmas client_defs =
  kByeMessage_def kReconnectDelay_def ECONNREFUSED_def SOCKET_ERROR_def new_client_def
  notify_def GetState_def Socket_Close_def Socket_Connect_def Socket_Send_def get_buffer_def
  set_buffer_def is_connected_def Close_def ConnectControlSocket_def DoConnect_def
  Connect_def OnResolveResult_def message_request_def SendToPeer_def SendHangUp_def
  IsSendingMessage_def sign_out_request_def SignOut_def OnConnect_def wait_request_def
  OnHangingGetConnect_def OnMessageFromPeer_def GetHeaderValue_size_def
  GetHeaderValue_string_def OnClose_def run_delayed_task_def kContentLength_def
  kConnection_def kPragma_def ReadIntoBuffer_def ParseEntry_def GetResponseStatus_def
  ParseServerResponse_def OnRead_entry_def OnRead_def OnHangingGetRead_def
  OnRead_listing.simps

subsection \<open>Retrying and signing out\<close>

lemma delayed_tasks_DoConnect:
  "delayed_tasks (DoConnect starts s) = delayed_tasks s"
  by (simp add: DoConnect_def ConnectControlSocket_def Socket_Connect_def Close_def
      Socket_Close_def notify_def Let_def)

lemma OnRead_signing_out:
  assumes "state s = SIGNING_OUT" and "my_id s \<noteq> -1"
    and "fst (ReadIntoBuffer b ControlSocket ControlData chunks 0 s)"
  shows "callbacks (OnRead a b chunks s)
           = callbacks s
             @ (if GetHeaderValue_string (Recv_loop chunks (control_data s))
                     (the (str_find (Recv_loop chunks (control_data s)) (CRLF @ CRLF) 0))
                     kConnection
                   = Some ''close''
                then [Cb_OnMessageSent 0] else [])
             @ [Cb_OnDisconnected]"
  using assms
  by (auto simp add: OnRead_def ReadIntoBuffer_def ParseServerResponse_def Let_def
      get_buffer_def set_buffer_def OnClose_def Socket_Close_def ECONNREFUSED_def notify_def
      Close_def Socket_Connect_def
      split: option.splits if_splits prod.splits)

lemma SignOut_twice: "SignOut b (snd (SignOut a s)) = (True, snd (SignOut a s))"
  by (simp add: SignOut_def ConnectControlSocket_def Socket_Connect_def Close_def
      Socket_Close_def GetState_def Let_def SOCKET_ERROR_def)

lemma SignOut_idle_with_id:
  assumes "state s \<noteq> NOT_CONNECTED" and "state s \<noteq> SIGNING_OUT"
    and "control_socket s = CS_CLOSED" and "my_id s \<noteq> -1"
  shows "SignOut True s
           = (True, s\<lparr>hanging_get := CS_CLOSED, state := SIGNING_OUT,
                       onconnect_data := sign_out_request (my_id s),
                       control_socket := CS_CONNECTING\<rparr>)"
  using assms
  by (cases "hanging_get s")
     (simp_all add: SignOut_def ConnectControlSocket_def Socket_Connect_def
        Socket_Close_def GetState_def Let_def SOCKET_ERROR_def)

lemma SignOut_idle_refused:
  assumes "state s \<noteq> NOT_CONNECTED" and "state s \<noteq> SIGNING_OUT"
    and "control_socket s = CS_CLOSED" and "my_id s \<noteq> -1"
  shows "SignOut False s
           = (False, Close (s\<lparr>hanging_get := CS_CLOSED, state := SIGNING_OUT,
                               onconnect_data := sign_out_request (my_id s)\<rparr>))"
  using assms
  by (cases "hanging_get s")
     (simp_all add: SignOut_def ConnectControlSocket_def Socket_Connect_def
        Socket_Close_def GetState_def Let_def SOCKET_ERROR_def Close_def)

lemma SignOut_idle_no_id:
  assumes "state s \<noteq> NOT_CONNECTED" and "state s \<noteq> SIGNING_OUT"
    and "control_socket s = CS_CLOSED" and "my_id s = -1"
  shows "SignOut a s = (True, s\<lparr>hanging_get := CS_CLOSED, state := SIGNING_OUT\<rparr>)"
  using assms
  by (cases "hanging_get s")
     (simp_all add: SignOut_def Socket_Close_def GetState_def Let_def)

lemma SignOut_busy:
  assumes "state s \<noteq> NOT_CONNECTED" and "state s \<noteq> SIGNING_OUT"
    and "control_socket s \<noteq> CS_CLOSED"
  shows "SignOut a s = (True, s\<lparr>hanging_get := CS_CLOSED, state := SIGNING_OUT_WAITING\<rparr>)"
  using assms
  by (cases "hanging_get s")
     (simp_all add: SignOut_def Socket_Close_def GetState_def Let_def)


subsection \<open>What the framer returns\<close>

lemma Recv_loop_append:
  "Recv_loop chunks d = d @ concat (takeWhile (\<lambda>c. c \<noteq> []) chunks)"
  by (induction chunks arbitrary: d) simp_all

lemma get_buffer_OnClose:
  "get_buffer data (OnClose starts socket err s) = get_buffer data s"
  by (cases data; cases socket)
     (simp_all add: OnClose_def get_buffer_def Socket_Close_def Socket_Connect_def notify_def
       Close_def Let_def)

lemma get_buffer_Socket_Close:
  "get_buffer data (Socket_Close socket s) = get_buffer data s"
  by (cases data; cases socket) (simp_all add: get_buffer_def Socket_Close_def)

lemma get_set_buffer: "get_buffer data (set_buffer data d s) = d"
  by (cases data) (simp_all add: get_buffer_def set_buffer_def)

lemma ReadIntoBuffer_buffer:
  "get_buffer data (snd (snd (ReadIntoBuffer starts socket data chunks cl0 s)))
     = Recv_loop chunks (get_buffer data s)"
  by (simp add: ReadIntoBuffer_def Let_def get_set_buffer get_buffer_OnClose
      get_buffer_Socket_Close split: option.splits)

lemma ReadIntoBuffer_ret:
  "fst (ReadIntoBuffer starts socket data chunks cl0 s) \<longleftrightarrow>
     (\<exists>i f. str_find (Recv_loop chunks (get_buffer data s)) (CRLF @ CRLF) 0 = Some i
        \<and> str_find (Recv_loop chunks (get_buffer data s)) kContentLength 0 = Some f
        \<and> f < i
        \<and> size_t_add (i + 4)
             (size_t_of_int
                (atoi (drop (f + length kContentLength) (Recv_loop chunks (get_buffer data s)))))
           \<le> length (Recv_loop chunks (get_buffer data s)))"
proof -
  define d where "d = Recv_loop chunks (get_buffer data s)"
  show ?thesis
  proof (cases "str_find d (CRLF @ CRLF) 0")
    case None
    then show ?thesis
      by (simp add: ReadIntoBuffer_def Let_def get_set_buffer d_def [symmetric])
  next
    case i: (Some i)
    show ?thesis
    proof (cases "str_find d kContentLength 0")
      case None
      with i show ?thesis
        by (simp add: ReadIntoBuffer_def Let_def get_set_buffer d_def [symmetric]
            GetHeaderValue_size_def)
    next
      case (Some f)
      with i show ?thesis
        by (simp add: ReadIntoBuffer_def Let_def get_set_buffer d_def [symmetric]
            GetHeaderValue_size_def)
    qed
  qed
qed

lemma ReadIntoBuffer_incomplete:
  assumes "\<not> fst (ReadIntoBuffer starts socket data chunks cl0 s)"
  shows "snd (snd (ReadIntoBuffer starts socket data chunks cl0 s))
           = set_buffer data (Recv_loop chunks (get_buffer data s)) s"
  using assms
  by (simp add: ReadIntoBuffer_def Let_def get_set_buffer split: option.splits if_splits)

lemma ReadIntoBuffer_starts:
  "fst (ReadIntoBuffer starts socket data chunks cl0 s)
     = fst (ReadIntoBuffer starts' socket' data chunks cl0' s)"
  unfolding ReadIntoBuffer_ret ..

lemma ReadIntoBuffer_fst_buffer:
  "get_buffer data s' = get_buffer data s \<Longrightarrow>
   fst (ReadIntoBuffer starts' socket' data chunks cl0' s')
     = fst (ReadIntoBuffer starts socket data chunks cl0 s)"
  unfolding ReadIntoBuffer_ret by simp

lemma OnRead_incomplete:
  assumes "\<not> fst (ReadIntoBuffer b ControlSocket ControlData chunks 0 s)"
  shows "OnRead a b chunks s = s\<lparr>control_data := Recv_loop chunks (control_data s)\<rparr>"
proof -
  obtain ret cl s1 where r: "ReadIntoBuffer b ControlSocket ControlData chunks 0 s = (ret, cl, s1)"
    by (cases "ReadIntoBuffer b ControlSocket ControlData chunks 0 s") auto
  with assms have "\<not> ret" by simp
  moreover from ReadIntoBuffer_incomplete [OF assms] r
  have "s1 = s\<lparr>control_data := Recv_loop chunks (control_data s)\<rparr>"
    by (simp add: set_buffer_def get_buffer_def)
  ultimately show ?thesis
    by (simp add: OnRead_def r)
qed

lemma OnHangingGetRead_incomplete:
  assumes "\<not> fst (ReadIntoBuffer a HangingGet NotificationData chunks 0 s)"
  shows "OnHangingGetRead a b chunks s =
       (if hanging_get s = CS_CLOSED \<and> state s = CONNECTED
        then snd (Socket_Connect b HangingGet
                    (s\<lparr>notification_data := Recv_loop chunks (notification_data s)\<rparr>))
        else s\<lparr>notification_data := Recv_loop chunks (notification_data s)\<rparr>)"
proof -
  obtain ret cl s1 where r: "ReadIntoBuffer a HangingGet NotificationData chunks 0 s = (ret, cl, s1)"
    by (cases "ReadIntoBuffer a HangingGet NotificationData chunks 0 s") auto
  with assms have "\<not> ret" by simp
  moreover from ReadIntoBuffer_incomplete [OF assms] r
  have "s1 = s\<lparr>notification_data := Recv_loop chunks (notification_data s)\<rparr>"
    by (simp add: set_buffer_def get_buffer_def)
  ultimately show ?thesis
    by (simp add: OnHangingGetRead_def r GetState_def)
qed

lemma Recv_loop_single: "Recv_loop [x] d = d @ x"
  by simp

lemma ReadIntoBuffer_content_length:
  "fst (snd (ReadIntoBuffer starts socket data chunks cl0 s))
     = (case str_find (Recv_loop chunks (get_buffer data s)) (CRLF @ CRLF) 0 of
          None \<Rightarrow> cl0
        | Some i \<Rightarrow>
            (case GetHeaderValue_size (Recv_loop chunks (get_buffer data s)) i kContentLength of
               None \<Rightarrow> cl0
             | Some cl \<Rightarrow> cl))"
  by (simp add: ReadIntoBuffer_def Let_def get_set_buffer split: option.splits)

lemma ReadIntoBuffer_after_partial:
  "ReadIntoBuffer b socket ControlData [y] cl0 (s\<lparr>control_data := control_data s @ x\<rparr>)
     = ReadIntoBuffer b socket ControlData [x @ y] cl0 s"
  "ReadIntoBuffer b socket NotificationData [y] cl0
       (s\<lparr>notification_data := notification_data s @ x\<rparr>)
     = ReadIntoBuffer b socket NotificationData [x @ y] cl0 s"
  by (simp_all add: ReadIntoBuffer_def Let_def set_buffer_def get_buffer_def Recv_loop_single
      del: Recv_loop.simps cong: option.case_cong if_cong)


subsection \<open>The listing loop and the listing of the specification\<close>

lemma find_aux_char:
  "find_aux [c] t n
     = (if c \<in> set t then Some (n + length (takeWhile (\<lambda>x. x \<noteq> c) t)) else None)"
  by (induction t arbitrary: n) auto

lemma str_find_char:
  "pos \<le> length s \<Longrightarrow>
   str_find s [c] pos
     = (if c \<in> set (drop pos s)
        then Some (pos + length (takeWhile (\<lambda>x. x \<noteq> c) (drop pos s))) else None)"
  by (simp add: str_find_def find_aux_char)

lemma spec_lines_from_no_LF: "LF \<notin> set xs \<Longrightarrow> spec_lines_from acc xs = []"
  by (induction xs arbitrary: acc) auto

lemma spec_lines_from_first:
  "LF \<notin> set xs \<Longrightarrow> spec_lines_from acc (xs @ LF # ys) = (rev acc @ xs) # spec_lines_from [] ys"
  by (induction xs arbitrary: acc) auto

lemma spec_lines_split:
  assumes "LF \<in> set t"
  shows "spec_lines t
           = takeWhile (\<lambda>x. x \<noteq> LF) t
             # spec_lines (drop (length (takeWhile (\<lambda>x. x \<noteq> LF) t) + 1) t)"
proof -
  define xs where "xs = takeWhile (\<lambda>x. x \<noteq> LF) t"
  have t: "t = xs @ LF # drop (length xs + 1) t"
  proof -
    have "dropWhile (\<lambda>x. x \<noteq> LF) t \<noteq> []" using assms by simp
    then obtain ys where ys: "dropWhile (\<lambda>x. x \<noteq> LF) t = LF # ys"
      using hd_dropWhile [of "\<lambda>x. x \<noteq> LF" t] by (cases "dropWhile (\<lambda>x. x \<noteq> LF) t") auto
    have "t = xs @ dropWhile (\<lambda>x. x \<noteq> LF) t" by (simp add: xs_def)
    then have t': "t = xs @ LF # ys" using ys by simp
    then have "drop (length xs + 1) t = ys"
      by (metis Suc_eq_plus1 append_eq_conv_conj drop_Suc_Cons drop_drop add.commute drop0)
    with t' show ?thesis by simp
  qed
  have "LF \<notin> set xs" unfolding xs_def by (metis (mono_tags, lifting) set_takeWhileD)
  from spec_lines_from_first [OF this, of "[]" "drop (length xs + 1) t"] t
  show ?thesis by (simp add: spec_lines_def xs_def [symmetric])
qed

lemma takeWhile_until: "c \<notin> set ys \<Longrightarrow> takeWhile (\<lambda>x. x \<noteq> c) (ys @ c # zs) = ys"
  by (induction ys) auto

lemma ParseEntry_no_comma:
  "CHR '','' \<notin> set line \<Longrightarrow> ParseEntry line [] 0 = (False, [], 0, False)"
  by (simp add: ParseEntry_def str_find_char)

lemma ParseEntry_comma:
  assumes "CHR '','' \<in> set line"
  shows "\<exists>connected. ParseEntry line [] 0
           = (takeWhile (\<lambda>c. c \<noteq> CHR '','') line \<noteq> [],
              takeWhile (\<lambda>c. c \<noteq> CHR '','') line,
              atoi (tl (dropWhile (\<lambda>c. c \<noteq> CHR '','') line)),
              connected)"
proof -
  define k where "k = length (takeWhile (\<lambda>c. c \<noteq> CHR '','') line)"
  have find: "str_find line '','' 0 = Some k"
    using assms by (simp add: str_find_char k_def)
  have name: "substr line 0 k = takeWhile (\<lambda>c. c \<noteq> CHR '','') line"
    by (simp add: substr_def k_def takeWhile_eq_take [symmetric])
  have rest: "drop (k + 1) line = tl (dropWhile (\<lambda>c. c \<noteq> CHR '','') line)"
    by (simp add: k_def dropWhile_eq_drop drop_Suc tl_drop)
  show ?thesis
    by (simp add: ParseEntry_def find Let_def name rest del: One_nat_def)
qed

lemma OnRead_entry_spec_entry:
  "OnRead_entry line s
     = (case spec_entry line of
          None \<Rightarrow> s
        | Some e \<Rightarrow>
            if fst e \<noteq> my_id s
            then notify (peer_connected e) (s\<lparr>peers := add_peer e (peers s)\<rparr>)
            else s)"
proof (cases "CHR '','' \<in> set line")
  case False
  then show ?thesis
    by (simp add: OnRead_entry_def ParseEntry_no_comma spec_entry_def)
next
  case True
  from ParseEntry_comma [OF this] obtain connected where
    "ParseEntry line [] 0
       = (takeWhile (\<lambda>c. c \<noteq> CHR '','') line \<noteq> [],
          takeWhile (\<lambda>c. c \<noteq> CHR '','') line,
          atoi (tl (dropWhile (\<lambda>c. c \<noteq> CHR '','') line)),
          connected)" ..
  with True show ?thesis
    by (simp add: OnRead_entry_def spec_entry_def Let_def add_peer_def peer_connected_def)
qed

lemma my_id_OnRead_entry: "my_id (OnRead_entry line s) = my_id s"
  by (simp add: OnRead_entry_spec_entry notify_def split: option.splits)

lemma OnRead_listing_fold:
  "pos \<le> length (control_data s) \<Longrightarrow>
   OnRead_listing pos s = fold OnRead_entry (spec_lines (drop pos (control_data s))) s"
proof (induction pos s rule: OnRead_listing.induct)
  case (1 pos s)
  show ?case
  proof (cases "pos < length (control_data s)")
    case False
    with 1 have "pos = length (control_data s)" by simp
    then show ?thesis
      by (subst OnRead_listing.simps) (simp add: spec_lines_def)
  next
    case True
    define t where "t = drop pos (control_data s)"
    show ?thesis
    proof (cases "LF \<in> set t")
      case False
      with True show ?thesis
        by (simp add: OnRead_listing.simps [of pos s] str_find_char t_def [symmetric]
            spec_lines_def spec_lines_from_no_LF)
    next
      case LF: True
      define k where "k = length (takeWhile (\<lambda>x. x \<noteq> LF) t)"
      have find: "str_find (control_data s) [LF] pos = Some (pos + k)"
        using True LF by (simp add: str_find_char t_def [symmetric] k_def)
      have k: "k < length t"
      proof -
        from split_list_first [OF LF] obtain ys zs where
          t: "t = ys @ LF # zs" and ys: "LF \<notin> set ys" by blast
        from ys have "takeWhile (\<lambda>x. x \<noteq> LF) t = ys"
          by (simp add: t takeWhile_until)
        then show ?thesis by (simp add: k_def t)
      qed
      then have bound: "pos + k + 1 \<le> length (control_data s)"
        by (simp add: t_def)
      have line: "substr (control_data s) pos k = takeWhile (\<lambda>x. x \<noteq> LF) t"
        by (simp add: substr_def t_def [symmetric] k_def takeWhile_eq_take [symmetric])
      have rest: "drop (Suc (pos + k)) (control_data s) = drop (Suc k) t"
        by (simp add: t_def add.commute)
      have IH: "OnRead_listing (pos + k + 1)
                  (OnRead_entry (takeWhile (\<lambda>x. x \<noteq> LF) t) s)
                = fold OnRead_entry (spec_lines (drop (k + 1) t))
                    (OnRead_entry (takeWhile (\<lambda>x. x \<noteq> LF) t) s)"
        using "1.IH" [OF True find] bound
        by (simp add: line control_data_OnRead_entry rest)
      show ?thesis
        using True find IH spec_lines_split [OF LF]
        by (simp add: OnRead_listing.simps [of pos s] line t_def [symmetric] k_def [symmetric])
    qed
  qed
qed

lemma fold_OnRead_entry:
  "fold OnRead_entry ls s
     = s\<lparr>peers := fold add_peer
                    (filter (\<lambda>e. fst e \<noteq> my_id s) (List.map_filter spec_entry ls)) (peers s),
          callbacks := callbacks s
                       @ map peer_connected
                           (filter (\<lambda>e. fst e \<noteq> my_id s) (List.map_filter spec_entry ls))\<rparr>"
proof (induction ls arbitrary: s)
  case Nil
  then show ?case by (simp add: List.map_filter_simps)
next
  case (Cons l ls)
  show ?case
  proof (cases "spec_entry l")
    case None
    then have "OnRead_entry l s = s"
      by (simp add: OnRead_entry_spec_entry)
    with None show ?thesis
      by (simp add: Cons.IH List.map_filter_simps)
  next
    case (Some e)
    then have "OnRead_entry l s
                 = (if fst e \<noteq> my_id s
                    then notify (peer_connected e) (s\<lparr>peers := add_peer e (peers s)\<rparr>)
                    else s)"
      by (simp add: OnRead_entry_spec_entry)
    with Some show ?thesis
      by (simp add: Cons.IH List.map_filter_simps notify_def)
  qed
qed

lemma fold_add_peer:
  "fold add_peer es m = m ++ map_of (rev es)"
proof (induction es arbitrary: m)
  case Nil
  then show ?case by simp
next
  case (Cons e es)
  have "m ++ map_of (rev es @ [e]) = add_peer e m ++ map_of (rev es)"
    by (cases e) (simp add: add_peer_def map_add_upd_left)
  then show ?case
    by (simp add: Cons.IH)
qed

subsection \<open>Integer conversions\<close>

lemma wrap_int_mod: "wrap_int (v mod 2 ^ 64) = wrap_int v"
proof -
  have "(v mod 2 ^ 64) mod 2 ^ 32 = v mod (2 ^ 32 :: int)"
    by (rule mod_mod_cancel) simp
  then show ?thesis by (simp add: wrap_int_def)
qed

lemma wrap_generic:
  fixes M H v :: int
  shows "(let r = (let r = v mod M in if r < H then r else r - M) mod M
          in if r < H then r else r - M)
         = (let r = v mod M in if r < H then r else r - M)"
proof -
  have m: "(if v mod M < H then v mod M else v mod M - M) mod M = v mod M"
    by simp
  show ?thesis unfolding Let_def m ..
qed

lemma wrap_int_idem: "wrap_int (wrap_int v) = wrap_int v"
  unfolding wrap_int_def by (rule wrap_generic)

lemma atoi_wrapped: "wrap_int (atoi t) = atoi t"
  unfolding atoi_def by (rule wrap_int_idem)

lemma int_of_size_t_atoi: "int_of_size_t (size_t_of_int (atoi t)) = atoi t"
proof -
  have "int (nat (atoi t mod 2 ^ 64)) = atoi t mod 2 ^ 64"
    by simp
  then have "int_of_size_t (size_t_of_int (atoi t)) = wrap_int (atoi t mod 2 ^ 64)"
    unfolding int_of_size_t_def size_t_of_int_def by simp
  also have "\<dots> = wrap_int (atoi t)" by (rule wrap_int_mod)
  also have "\<dots> = atoi t" by (rule atoi_wrapped)
  finally show ?thesis .
qed

subsection \<open>Processing a complete response\<close>

lemma OnClose_control_0:
  "OnClose starts ControlSocket 0 s = notify (Cb_OnMessageSent 0) (s\<lparr>control_socket := CS_CLOSED\<rparr>)"
  by (simp add: OnClose_def Socket_Close_def ECONNREFUSED_def)

lemma ReadIntoBuffer_complete_state:
  assumes "fst (ReadIntoBuffer starts socket data chunks cl0 s)"
  shows "\<exists>i. str_find (Recv_loop chunks (get_buffer data s)) (CRLF @ CRLF) 0 = Some i
           \<and> snd (snd (ReadIntoBuffer starts socket data chunks cl0 s))
               = (if GetHeaderValue_string (Recv_loop chunks (get_buffer data s)) i kConnection
                       = Some ''close''
                  then OnClose starts socket 0
                         (Socket_Close socket
                            (set_buffer data (Recv_loop chunks (get_buffer data s)) s))
                  else set_buffer data (Recv_loop chunks (get_buffer data s)) s)"
proof -
  define d where "d = Recv_loop chunks (get_buffer data s)"
  show ?thesis
  proof (cases "str_find d (CRLF @ CRLF) 0")
    case None
    with assms show ?thesis
      by (simp add: ReadIntoBuffer_def Let_def get_set_buffer d_def [symmetric])
  next
    case i: (Some i)
    show ?thesis
    proof (cases "GetHeaderValue_size d i kContentLength")
      case None
      with assms i show ?thesis
        by (simp add: ReadIntoBuffer_def Let_def get_set_buffer d_def [symmetric])
    next
      case (Some cl)
      show ?thesis
      proof (cases "size_t_add (i + 4) cl \<le> length d")
        case True
        with i Some show ?thesis
          by (simp add: ReadIntoBuffer_def Let_def get_set_buffer d_def [symmetric])
      next
        case False
        with assms i Some show ?thesis
          by (simp add: ReadIntoBuffer_def Let_def get_set_buffer d_def [symmetric])
      qed
    qed
  qed
qed

lemma ParseServerResponse_not_200:
  "GetResponseStatus (c_str response) \<noteq> 200 \<Longrightarrow>
   ParseServerResponse response cl peer_id eoh s
     = (False, peer_id, eoh, notify Cb_OnDisconnected (Close s))"
  by (simp add: ParseServerResponse_def)

lemma ParseServerResponse_200:
  "GetResponseStatus (c_str response) = 200 \<Longrightarrow>
   str_find response (CRLF @ CRLF) 0 = Some e \<Longrightarrow>
   ParseServerResponse response cl peer_id eoh s
     = (True,
        (case GetHeaderValue_size response e kPragma of None \<Rightarrow> npos | Some v \<Rightarrow> v),
        e, s)"
  by (simp add: ParseServerResponse_def)

lemma OnRead_not_200:
  assumes complete: "fst (ReadIntoBuffer b ControlSocket ControlData chunks 0 s)"
    and status: "GetResponseStatus (c_str (Recv_loop chunks (control_data s))) \<noteq> 200"
  shows "OnRead a b chunks s
           = (Close s)\<lparr>control_data := [],
                callbacks := callbacks s
                  @ (if GetHeaderValue_string (Recv_loop chunks (control_data s))
                          (the (str_find (Recv_loop chunks (control_data s)) (CRLF @ CRLF) 0))
                          kConnection = Some ''close''
                     then [Cb_OnMessageSent 0] else [])
                  @ [Cb_OnDisconnected]\<rparr>"
proof -
  define d where "d = Recv_loop chunks (control_data s)"
  obtain ret cl s1 where r: "ReadIntoBuffer b ControlSocket ControlData chunks 0 s = (ret, cl, s1)"
    by (cases "ReadIntoBuffer b ControlSocket ControlData chunks 0 s") auto
  from complete r have ret: "ret" by simp
  from ReadIntoBuffer_complete_state [OF complete] r obtain i where
    i: "str_find d (CRLF @ CRLF) 0 = Some i" and
    s1: "s1 = (if GetHeaderValue_string d i kConnection = Some ''close''
               then OnClose b ControlSocket 0 (Socket_Close ControlSocket (s\<lparr>control_data := d\<rparr>))
               else s\<lparr>control_data := d\<rparr>)"
    by (auto simp add: get_buffer_def set_buffer_def d_def)
  have cd: "control_data s1 = d"
    using ReadIntoBuffer_buffer [of ControlData b ControlSocket chunks 0 s] r
    by (simp add: get_buffer_def d_def)
  have "OnRead a b chunks s = (notify Cb_OnDisconnected (Close s1))\<lparr>control_data := []\<rparr>"
    using status
    by (simp add: OnRead_def r ret cd d_def [symmetric] ParseServerResponse_not_200
        Close_def notify_def Socket_Close_def)
  also have "\<dots> = (Close s)\<lparr>control_data := [],
                callbacks := callbacks s
                  @ (if GetHeaderValue_string d i kConnection = Some ''close''
                     then [Cb_OnMessageSent 0] else [])
                  @ [Cb_OnDisconnected]\<rparr>"
    by (simp add: s1 OnClose_control_0 Close_def notify_def Socket_Close_def)
  finally show ?thesis
    by (simp add: d_def [symmetric] i)
qed

lemma OnHangingGetRead_not_200:
  assumes complete: "fst (ReadIntoBuffer a HangingGet NotificationData chunks 0 s)"
    and status: "GetResponseStatus (c_str (Recv_loop chunks (notification_data s))) \<noteq> 200"
  shows "OnHangingGetRead a b chunks s
           = (Close s)\<lparr>notification_data := [],
                callbacks := callbacks s @ [Cb_OnDisconnected]\<rparr>"
proof -
  define d where "d = Recv_loop chunks (notification_data s)"
  obtain ret cl s1 where
    r: "ReadIntoBuffer a HangingGet NotificationData chunks 0 s = (ret, cl, s1)"
    by (cases "ReadIntoBuffer a HangingGet NotificationData chunks 0 s") auto
  from complete r have ret: "ret" by simp
  from ReadIntoBuffer_complete_state [OF complete] r obtain i where
    i: "str_find d (CRLF @ CRLF) 0 = Some i" and
    s1: "s1 = (if GetHeaderValue_string d i kConnection = Some ''close''
               then OnClose a HangingGet 0 (Socket_Close HangingGet (s\<lparr>notification_data := d\<rparr>))
               else s\<lparr>notification_data := d\<rparr>)"
    by (auto simp add: get_buffer_def set_buffer_def d_def)
  have nd: "notification_data s1 = d"
    using ReadIntoBuffer_buffer [of NotificationData a HangingGet chunks 0 s] r
    by (simp add: get_buffer_def d_def)
  have "OnHangingGetRead a b chunks s
          = (notify Cb_OnDisconnected (Close s1))\<lparr>notification_data := []\<rparr>"
    using status
    by (simp add: OnHangingGetRead_def r ret nd d_def [symmetric] ParseServerResponse_not_200
        Close_def notify_def Socket_Close_def GetState_def)
  also have "\<dots> = (Close s)\<lparr>notification_data := [],
                callbacks := callbacks s @ [Cb_OnDisconnected]\<rparr>"
    by (simp add: s1 OnClose_def Close_def notify_def Socket_Close_def Socket_Connect_def
        ECONNREFUSED_def Let_def)
  finally show ?thesis .
qed


lemma OnRead_sign_in:
  assumes unset: "my_id s = -1"
    and d: "d = Recv_loop chunks (control_data s)"
    and eoh: "str_find d (CRLF @ CRLF) 0 = Some eoh"
    and cl: "str_find d kContentLength 0 = Some f" "f < eoh"
    and exact: "length d = eoh + 4 + size_t_of_int (atoi (drop (f + length kContentLength) d))"
    and status: "GetResponseStatus (c_str d) = 200"
    and pragma: "str_find d kPragma 0 = Some p" "p < eoh"
  shows "\<exists>s4. OnRead a b chunks s
               = (if state s4 = SIGNING_IN
                  then snd (Socket_Connect b HangingGet (s4\<lparr>state := CONNECTED\<rparr>)) else s4)
           \<and> my_id s4 = atoi (drop (p + length kPragma) d)
           \<and> peers s4
               = fold add_peer
                   (filter (\<lambda>e. fst e \<noteq> atoi (drop (p + length kPragma) d))
                      (spec_listing (drop (eoh + 4) d)))
                   (peers s)
           \<and> callbacks s4
               = callbacks s
                 @ (if GetHeaderValue_string d eoh kConnection = Some ''close''
                    then [Cb_OnMessageSent 0] else [])
                 @ map peer_connected
                     (filter (\<lambda>e. fst e \<noteq> atoi (drop (p + length kPragma) d))
                        (spec_listing (drop (eoh + 4) d)))
                 @ [Cb_OnSignedIn]
           \<and> control_data s4 = []"
proof -
  define cl0 where "cl0 = size_t_of_int (atoi (drop (f + length kContentLength) d))"
  define self where "self = atoi (drop (p + length kPragma) d)"
  define others where "others = filter (\<lambda>e. fst e \<noteq> self) (spec_listing (drop (eoh + 4) d))"
  have "size_t_add (eoh + 4) cl0 \<le> eoh + 4 + cl0"
    by (simp add: size_t_add_def)
  then have fits: "size_t_add (eoh + 4) cl0 \<le> length d"
    using exact by (simp add: cl0_def)
  have complete: "fst (ReadIntoBuffer b ControlSocket ControlData chunks 0 s)"
    unfolding ReadIntoBuffer_ret
    using eoh cl fits by (auto simp add: get_buffer_def d [symmetric] cl0_def)
  obtain ret cl1 s1 where
    r: "ReadIntoBuffer b ControlSocket ControlData chunks 0 s = (ret, cl1, s1)"
    by (cases "ReadIntoBuffer b ControlSocket ControlData chunks 0 s") auto
  from complete r have ret: "ret" by simp
  have cl1: "cl1 = cl0"
    using ReadIntoBuffer_content_length [of b ControlSocket ControlData chunks 0 s] r eoh cl
    by (simp add: get_buffer_def d [symmetric] GetHeaderValue_size_def cl0_def)
  from ReadIntoBuffer_complete_state [OF complete] r eoh
  have s1: "s1 = (if GetHeaderValue_string d eoh kConnection = Some ''close''
               then OnClose b ControlSocket 0 (Socket_Close ControlSocket (s\<lparr>control_data := d\<rparr>))
               else s\<lparr>control_data := d\<rparr>)"
    by (auto simp add: get_buffer_def set_buffer_def d [symmetric])
  have s1_fields: "control_data s1 = d" "my_id s1 = -1" "peers s1 = peers s"
    "callbacks s1 = callbacks s
       @ (if GetHeaderValue_string d eoh kConnection = Some ''close''
          then [Cb_OnMessageSent 0] else [])"
    using unset by (simp_all add: s1 OnClose_control_0 notify_def Socket_Close_def)
  have parse: "ParseServerResponse d cl0 0 0 s1 = (True, size_t_of_int self, eoh, s1)"
    using status eoh pragma
    by (simp add: ParseServerResponse_200 GetHeaderValue_size_def self_def)
  have self_cast: "int_of_size_t (size_t_of_int self) = self"
    by (simp add: self_def int_of_size_t_atoi)
  define s2a where "s2a = s1\<lparr>my_id := self\<rparr>"
  have s2a_fields: "control_data s2a = d" "my_id s2a = self" "peers s2a = peers s"
    "callbacks s2a = callbacks s1"
    by (simp_all add: s2a_def s1_fields)
  have body_empty: "spec_lines (drop (eoh + 4) d) = []" if "cl0 = 0"
    using that exact by (simp add: cl0_def spec_lines_def)
  have le: "eoh + 4 \<le> length (control_data s2a)"
    using exact by (simp add: s2a_fields)
  define R where "R = (if cl0 \<noteq> 0 then OnRead_listing (eoh + 4) s2a else s2a)"
  have "R = fold OnRead_entry (spec_lines (drop (eoh + 4) d)) s2a"
    using OnRead_listing_fold [OF le] body_empty by (simp add: R_def s2a_fields)
  then have R: "R = s2a\<lparr>peers := fold add_peer others (peers s),
                        callbacks := callbacks s1 @ map peer_connected others\<rparr>"
    by (simp add: fold_OnRead_entry s2a_fields others_def spec_listing_def)
  define s4 where "s4 = (notify Cb_OnSignedIn R)\<lparr>control_data := []\<rparr>"
  have "OnRead a b chunks s
          = (if state s4 = SIGNING_IN
             then snd (Socket_Connect b HangingGet (s4\<lparr>state := CONNECTED\<rparr>)) else s4)"
    unfolding s4_def R_def s2a_def
    by (simp add: OnRead_def r ret cl1 s1_fields parse self_cast Let_def)
  moreover have "my_id s4 = self" "peers s4 = fold add_peer others (peers s)"
    "callbacks s4 = callbacks s
                 @ (if GetHeaderValue_string d eoh kConnection = Some ''close''
                    then [Cb_OnMessageSent 0] else [])
                 @ map peer_connected others @ [Cb_OnSignedIn]"
    "control_data s4 = []"
    by (simp_all add: s4_def R notify_def s2a_fields s1_fields)
  ultimately show ?thesis
    unfolding self_def others_def by blast
qed

lemma OnRead_signing_out_waiting:
  assumes st: "state s = SIGNING_OUT_WAITING" and self: "my_id s \<noteq> -1"
    and complete: "fst (ReadIntoBuffer b ControlSocket ControlData chunks 0 s)"
    and status: "GetResponseStatus (c_str (Recv_loop chunks (control_data s))) = 200"
  shows "OnRead a b chunks s
           = (if GetHeaderValue_string (Recv_loop chunks (control_data s))
                   (the (str_find (Recv_loop chunks (control_data s)) (CRLF @ CRLF) 0))
                   kConnection = Some ''close''
              then (snd (SignOut a
                      (s\<lparr>control_socket := CS_CLOSED,
                         callbacks := callbacks s @ [Cb_OnMessageSent 0]\<rparr>)))
                   \<lparr>control_data := []\<rparr>
              else (snd (SignOut a s))\<lparr>control_data := []\<rparr>)"
proof -
  define d where "d = Recv_loop chunks (control_data s)"
  obtain ret cl s1 where r: "ReadIntoBuffer b ControlSocket ControlData chunks 0 s = (ret, cl, s1)"
    by (cases "ReadIntoBuffer b ControlSocket ControlData chunks 0 s") auto
  from complete r have ret: "ret" by simp
  from ReadIntoBuffer_complete_state [OF complete] r obtain i where
    i: "str_find d (CRLF @ CRLF) 0 = Some i" and
    s1: "s1 = (if GetHeaderValue_string d i kConnection = Some ''close''
               then OnClose b ControlSocket 0 (Socket_Close ControlSocket (s\<lparr>control_data := d\<rparr>))
               else s\<lparr>control_data := d\<rparr>)"
    by (auto simp add: get_buffer_def set_buffer_def d_def)
  have s1_fields: "control_data s1 = d" "my_id s1 = my_id s" "state s1 = SIGNING_OUT_WAITING"
    using st by (simp_all add: s1 OnClose_control_0 notify_def Socket_Close_def)
  have parse: "\<exists>p. ParseServerResponse d cl 0 0 s1 = (True, p, i, s1)"
    using status i by (simp add: ParseServerResponse_200 d_def)
  then obtain p where p: "ParseServerResponse d cl 0 0 s1 = (True, p, i, s1)" ..
  have "OnRead a b chunks s = (snd (SignOut a s1))\<lparr>control_data := []\<rparr>"
  proof -
    have "state ((snd (SignOut a s1))\<lparr>control_data := []\<rparr>) \<noteq> SIGNING_IN"
      using s1_fields
      by (simp add: SignOut_def ConnectControlSocket_def Socket_Connect_def Close_def
          Socket_Close_def GetState_def Let_def SOCKET_ERROR_def)
    then show ?thesis
      using self by (simp add: OnRead_def r ret s1_fields p Let_def)
  qed
  also have "\<dots> = (if GetHeaderValue_string d i kConnection = Some ''close''
              then (snd (SignOut a
                      (s\<lparr>control_socket := CS_CLOSED,
                         callbacks := callbacks s @ [Cb_OnMessageSent 0]\<rparr>)))
                   \<lparr>control_data := []\<rparr>
              else (snd (SignOut a s))\<lparr>control_data := []\<rparr>)"
    using st
    by (simp add: s1 OnClose_control_0 notify_def Socket_Close_def SignOut_def
        ConnectControlSocket_def Socket_Connect_def Close_def GetState_def Let_def
        SOCKET_ERROR_def)
  finally show ?thesis
    by (simp add: d_def [symmetric] i)
qed

subsection \<open>Prefixes of a single response\<close>

lemma starts_with_take: "starts_with p t \<longleftrightarrow> take (length p) t = p"
  by (induction p t rule: starts_with.induct) auto

lemma starts_with_length: "starts_with p t \<Longrightarrow> length p \<le> length t"
  by (induction p t rule: starts_with.induct) auto

lemma starts_with_of_take: "starts_with p (take m t) \<Longrightarrow> starts_with p t"
proof (induction p t arbitrary: m rule: starts_with.induct)
  case (1 t)
  then show ?case by simp
next
  case (2 p ps)
  then show ?case by simp
next
  case (3 p ps c cs)
  then show ?case by (cases m) auto
qed

lemma starts_with_in_take:
  "starts_with p t \<Longrightarrow> length p \<le> m \<Longrightarrow> starts_with p (take m t)"
proof (induction p t arbitrary: m rule: starts_with.induct)
  case (1 t)
  then show ?case by simp
next
  case (2 p ps)
  then show ?case by simp
next
  case (3 p ps c cs)
  then show ?case by (cases m) auto
qed

lemma find_aux_found:
  "find_aux pat t n = Some j \<Longrightarrow>
     n \<le> j \<and> j - n + length pat \<le> length t \<and> starts_with pat (drop (j - n) t)"
proof (induction t arbitrary: n)
  case Nil
  then show ?case by (simp split: if_splits)
next
  case (Cons c cs)
  show ?case
  proof (cases "starts_with pat (c # cs)")
    case True
    with Cons.prems have "j = n" by simp
    moreover from True have "length pat \<le> length (c # cs)"
      by (rule starts_with_length)
    ultimately show ?thesis using True by simp
  next
    case False
    with Cons.prems have "find_aux pat cs (Suc n) = Some j" by simp
    from Cons.IH [OF this] have IH: "Suc n \<le> j" "j - Suc n + length pat \<le> length cs"
      "starts_with pat (drop (j - Suc n) cs)" by auto
    from IH(1) have "j - n = Suc (j - Suc n)" by arith
    with IH show ?thesis by simp
  qed
qed

lemma find_aux_prefix:
  "find_aux pat (take k t) n = Some j \<Longrightarrow> pat \<noteq> [] \<Longrightarrow> find_aux pat t n = Some j"
proof (induction t arbitrary: k n)
  case Nil
  then show ?case by simp
next
  case (Cons c cs)
  show ?case
  proof (cases k)
    case 0
    with Cons.prems show ?thesis by simp
  next
    case (Suc k')
    show ?thesis
    proof (cases "starts_with pat (c # take k' cs)")
      case True
      then have "starts_with pat (take (Suc k') (c # cs))" by simp
      then have "starts_with pat (c # cs)" by (rule starts_with_of_take)
      with True Cons.prems Suc show ?thesis by simp
    next
      case False
      with Cons.prems Suc have found: "find_aux pat (take k' cs) (Suc n) = Some j" by simp
      from Cons.IH [OF this Cons.prems(2)] have rec: "find_aux pat cs (Suc n) = Some j" .
      from find_aux_found [OF found] have fits: "length pat \<le> k'"
        by auto
      have "\<not> starts_with pat (c # cs)"
      proof
        assume "starts_with pat (c # cs)"
        then have "starts_with pat (take (Suc k') (c # cs))"
          using fits by (intro starts_with_in_take) simp_all
        with False show False by simp
      qed
      with rec show ?thesis by simp
    qed
  qed
qed

lemma str_find_prefix:
  "str_find (take k r) pat 0 = Some j \<Longrightarrow> pat \<noteq> [] \<Longrightarrow> str_find r pat 0 = Some j"
  using find_aux_prefix [of pat k r 0 j] by (simp add: str_find_def)

lemma str_find_found:
  assumes "str_find r pat 0 = Some j"
  shows "j + length pat \<le> length r" and "take (length pat) (drop j r) = pat"
  using find_aux_found [of pat r 0 j] assms
  by (simp_all add: str_find_def starts_with_take)

lemma atoi_digits_take:
  "q < n \<Longrightarrow> q < length xs \<Longrightarrow> \<not> isdigit (xs ! q) \<Longrightarrow>
     atoi_digits acc (take n xs) = atoi_digits acc xs"
proof (induction xs arbitrary: n q acc)
  case Nil
  then show ?case by simp
next
  case (Cons c cs)
  from Cons.prems obtain n' where n: "n = Suc n'" by (cases n) auto
  show ?case
  proof (cases "isdigit c")
    case False
    then show ?thesis by (simp add: n)
  next
    case True
    with Cons.prems obtain q' where q: "q = Suc q'" by (cases q) auto
    from Cons.prems have "q' < n'" "q' < length cs" "\<not> isdigit (cs ! q')"
      by (simp_all add: n q)
    from Cons.IH [OF this] True show ?thesis by (simp add: n)
  qed
qed

lemma atoi_digit_first:
  assumes "isdigit c"
  shows "atoi (c # cs) = wrap_int (atoi_digits 0 (c # cs))"
proof -
  from assms have "\<not> isspace c" "c \<noteq> CHR ''-''" "c \<noteq> CHR ''+''"
    by (auto simp add: isdigit_def isspace_def)
  then show ?thesis by (simp add: atoi_def)
qed

lemma pattern_before_terminator:
  assumes pat: "str_find r pat 0 = Some f"
    and eoh: "str_find r (CRLF @ CRLF) 0 = Some i"
    and lt: "f < i"
    and no_CR: "CR \<notin> set (tl pat)"
  shows "f + length pat \<le> i"
proof (rule ccontr)
  assume "\<not> f + length pat \<le> i"
  then have inside: "i - f < length pat" "0 < i - f" using lt by simp_all
  from find_aux_found [of "CRLF @ CRLF" r 0 i] eoh
  have sw: "starts_with (CR # LF # CRLF) (drop i r)"
    by (simp add: str_find_def CRLF_def)
  then obtain rest where rest: "drop i r = CR # rest"
    by (cases "drop i r") auto
  then have i: "i < length r"
    by (metis drop_all list.distinct(1) linorder_not_less)
  have "r ! i = drop i r ! 0" using i by simp
  then have CR: "r ! i = CR" by (simp add: rest)
  from str_find_found [OF pat] have p: "take (length pat) (drop f r) = pat" by simp
  have "r ! i = drop f r ! (i - f)" using lt i by simp
  also have "\<dots> = take (length pat) (drop f r) ! (i - f)" using inside by simp
  also have "\<dots> = pat ! (i - f)" by (simp add: p)
  also have "\<dots> = tl pat ! (i - f - 1)"
  proof -
    from lt have "i - f = Suc (i - f - 1)" by arith
    then have "pat ! (i - f) = pat ! Suc (i - f - 1)" by simp
    also have "\<dots> = tl pat ! (i - f - 1)" using inside by (simp add: nth_tl del: One_nat_def)
    finally show ?thesis .
  qed
  finally have "r ! i \<in> set (tl pat)"
    using inside by (simp add: nth_mem)
  with CR no_CR show False by simp
qed

lemma atoi_in_prefix:
  assumes p: "p \<le> i" and i: "i < k" "i < length r"
    and digit: "isdigit (r ! p)" and stop: "\<not> isdigit (r ! i)"
  shows "atoi (drop p (take k r)) = atoi (drop p r)"
proof -
  define xs where "xs = drop p r"
  have len: "i - p < length xs" using p i by (simp add: xs_def)
  have stop': "\<not> isdigit (xs ! (i - p))" using stop p i by (simp add: xs_def)
  have pos: "i - p < k - p" using p i by simp
  have dt: "drop p (take k r) = take (k - p) xs" by (simp add: xs_def drop_take)
  obtain c cs where xs: "xs = c # cs" using len by (cases xs) auto
  have "xs ! 0 = r ! p" using p i by (simp add: xs_def)
  then have c: "isdigit c" using digit by (simp add: xs)
  obtain n where n: "k - p = Suc n" using pos by (cases "k - p") auto
  have "atoi (take (k - p) xs) = wrap_int (atoi_digits 0 (take (k - p) xs))"
    using atoi_digit_first [OF c, of "take n cs"] by (simp add: xs n)
  also have "\<dots> = wrap_int (atoi_digits 0 xs)"
    using atoi_digits_take [OF pos len stop'] by simp
  also have "\<dots> = atoi xs"
    using atoi_digit_first [OF c, of cs] by (simp add: xs)
  finally show ?thesis by (simp add: dt xs_def)
qed

lemma prefix_incomplete:
  assumes eoh: "str_find r (CRLF @ CRLF) 0 = Some i"
    and cl: "str_find r kContentLength 0 = Some f" "f < i"
    and digit: "isdigit (r ! (f + length kContentLength))"
    and exact: "length r = i + 4 + size_t_of_int (atoi (drop (f + length kContentLength) r))"
    and small: "length r < 2 ^ 64"
    and k: "k < length r"
    and empty: "get_buffer data s = []"
  shows "\<not> fst (ReadIntoBuffer starts socket data [take k r] cl0 s)"
proof
  have buffer: "Recv_loop [take k r] (get_buffer data s) = take k r"
    by (simp add: empty Recv_loop_single del: Recv_loop.simps)
  assume "fst (ReadIntoBuffer starts socket data [take k r] cl0 s)"
  then obtain i' f' where
    eoh': "str_find (take k r) (CRLF @ CRLF) 0 = Some i'" and
    cl': "str_find (take k r) kContentLength 0 = Some f'" and
    fits: "size_t_add (i' + 4)
             (size_t_of_int (atoi (drop (f' + length kContentLength) (take k r))))
           \<le> length (take k r)"
    unfolding ReadIntoBuffer_ret buffer by blast
  have "str_find r (CRLF @ CRLF) 0 = Some i'"
    using str_find_prefix [OF eoh'] by (simp add: CRLF_def)
  with eoh have i': "i' = i" by simp
  have "str_find r kContentLength 0 = Some f'"
    using str_find_prefix [OF cl'] by (simp add: kContentLength_def CRLF_def)
  with cl have f': "f' = f" by simp
  from str_find_found(1) [OF eoh'] have ik: "i + 4 \<le> k" and il: "i + 4 \<le> length r"
    by (simp_all add: i' CRLF_def)
  have before: "f + length kContentLength \<le> i"
    using pattern_before_terminator [OF cl(1) eoh cl(2)]
    by (simp add: kContentLength_def CRLF_def CR_def LF_def)
  from find_aux_found [of "CRLF @ CRLF" r 0 i] eoh
  have "starts_with (CR # LF # CRLF) (drop i r)"
    by (simp add: str_find_def CRLF_def)
  then obtain rest where "drop i r = CR # rest"
    by (cases "drop i r") auto
  moreover have "r ! i = drop i r ! 0" using il by simp
  ultimately have "r ! i = CR" by simp
  then have stop: "\<not> isdigit (r ! i)"
    by (simp add: isdigit_def CR_def)
  have "atoi (drop (f + length kContentLength) (take k r))
          = atoi (drop (f + length kContentLength) r)"
    using atoi_in_prefix [OF before _ _ digit stop, of k] ik il by simp
  with fits have "size_t_add (i + 4)
             (size_t_of_int (atoi (drop (f + length kContentLength) r))) \<le> k"
    using k by (simp add: i' f')
  moreover have "size_t_add (i + 4)
             (size_t_of_int (atoi (drop (f + length kContentLength) r))) = length r"
    using exact small by (simp add: size_t_add_def)
  ultimately show False using k by simp
qed

lemma OnRead_nothing_read:
  "control_data s = [] \<Longrightarrow> OnRead a b [[]] s = s"
  by (simp add: OnRead_def ReadIntoBuffer_def Let_def get_buffer_def set_buffer_def
      str_find_def CRLF_def)

lemma OnRead_complete_clears:
  assumes "fst (ReadIntoBuffer b ControlSocket ControlData chunks 0 s)"
  shows "control_data (OnRead a b chunks s) = []"
proof -
  obtain ret cl s1 where r: "ReadIntoBuffer b ControlSocket ControlData chunks 0 s = (ret, cl, s1)"
    by (cases "ReadIntoBuffer b ControlSocket ControlData chunks 0 s") auto
  with assms have "ret" by simp
  then show ?thesis
    by (simp add: OnRead_def r Let_def Socket_Connect_def split: prod.splits)
qed

lemma one_response_complete:
  assumes "one_response r" and "get_buffer data s = []"
  shows "fst (ReadIntoBuffer starts socket data [r] cl0 s)"
proof -
  from assms(1) obtain i f where
    eoh: "str_find r (CRLF @ CRLF) 0 = Some i" and
    cl: "str_find r kContentLength 0 = Some f" "f < i" and
    exact: "length r = i + 4 + size_t_of_int (atoi (drop (f + length kContentLength) r))"
    by (auto simp add: one_response_def split: option.splits)
  have "size_t_add (i + 4) (size_t_of_int (atoi (drop (f + length kContentLength) r)))
          \<le> i + 4 + size_t_of_int (atoi (drop (f + length kContentLength) r))"
    by (simp add: size_t_add_def)
  with exact have "size_t_add (i + 4)
      (size_t_of_int (atoi (drop (f + length kContentLength) r))) \<le> length r"
    by simp
  moreover have "Recv_loop [r] (get_buffer data s) = r"
    by (simp add: assms(2) Recv_loop_single del: Recv_loop.simps)
  ultimately show ?thesis
    unfolding ReadIntoBuffer_ret using eoh cl by auto
qed

lemma one_response_prefix_incomplete:
  assumes "one_response r" and "k < length r" and "get_buffer data s = []"
  shows "\<not> fst (ReadIntoBuffer starts socket data [take k r] cl0 s)"
proof -
  from assms(1) obtain i f where
    "str_find r (CRLF @ CRLF) 0 = Some i"
    "str_find r kContentLength 0 = Some f" "f < i"
    "isdigit (r ! (f + length kContentLength))"
    "length r = i + 4 + size_t_of_int (atoi (drop (f + length kContentLength) r))"
    "length r < 2 ^ 64"
    by (auto simp add: one_response_def split: option.splits)
  from prefix_incomplete [OF this assms(2,3)] show ?thesis .
qed

lemma OnHangingGetRead_complete_clears:
  assumes "fst (ReadIntoBuffer a HangingGet NotificationData chunks 0 s)"
  shows "notification_data (OnHangingGetRead a b chunks s) = []"
proof -
  obtain ret cl s1 where
    r: "ReadIntoBuffer a HangingGet NotificationData chunks 0 s = (ret, cl, s1)"
    by (cases "ReadIntoBuffer a HangingGet NotificationData chunks 0 s") auto
  with assms have "ret" by simp
  then show ?thesis
    by (simp add: OnHangingGetRead_def r Let_def Socket_Connect_def split: prod.splits)
qed

lemma OnHangingGetRead_reconnected:
  "hanging_get (OnHangingGetRead a b chunks s) = CS_CLOSED
   \<and> state (OnHangingGetRead a b chunks s) = CONNECTED \<longrightarrow> \<not> b"
  by (simp add: OnHangingGetRead_def Let_def Socket_Connect_def GetState_def split: prod.splits)

lemma OnHangingGetRead_nothing_read:
  assumes "notification_data s = []"
    and "hanging_get s = CS_CLOSED \<and> state s = CONNECTED \<longrightarrow> \<not> b"
  shows "OnHangingGetRead a b [[]] s = s"
  using assms
  by (simp add: OnHangingGetRead_def ReadIntoBuffer_def Let_def get_buffer_def set_buffer_def
      str_find_def CRLF_def GetState_def Socket_Connect_def)

subsection \<open>Delivery in two parts\<close>

lemma split_framer:
  "(let s1 = snd (snd (ReadIntoBuffer a socket data [take k r] 0 s));
        two = ReadIntoBuffer b socket data [drop k r] 0 s1;
        one = ReadIntoBuffer b socket data [r] 0 s
    in get_buffer data (snd (snd two)) = get_buffer data s @ r
       \<and> get_buffer data (snd (snd one)) = get_buffer data s @ r
       \<and> fst two = fst one
       \<and> fst (snd two) = fst (snd one))"
proof -
  define s1 where "s1 = snd (snd (ReadIntoBuffer a socket data [take k r] 0 s))"
  have b1: "get_buffer data s1 = get_buffer data s @ take k r"
    by (simp add: s1_def ReadIntoBuffer_buffer)
  have whole: "Recv_loop [drop k r] (get_buffer data s1) = Recv_loop [r] (get_buffer data s)"
    by (simp add: Recv_loop_single b1 del: Recv_loop.simps)
  have "get_buffer data (snd (snd (ReadIntoBuffer b socket data [drop k r] 0 s1)))
          = get_buffer data s @ r"
    by (simp add: ReadIntoBuffer_buffer b1 Recv_loop_single del: Recv_loop.simps)
  moreover have "get_buffer data (snd (snd (ReadIntoBuffer b socket data [r] 0 s)))
          = get_buffer data s @ r"
    by (simp only: ReadIntoBuffer_buffer Recv_loop_single)
  moreover have "fst (ReadIntoBuffer b socket data [drop k r] 0 s1)
          = fst (ReadIntoBuffer b socket data [r] 0 s)"
    by (simp only: ReadIntoBuffer_ret whole)
  moreover have "fst (snd (ReadIntoBuffer b socket data [drop k r] 0 s1))
          = fst (snd (ReadIntoBuffer b socket data [r] 0 s))"
    by (simp only: ReadIntoBuffer_content_length whole)
  ultimately show ?thesis
    unfolding s1_def [symmetric] Let_def by blast
qed

lemma OnRead_split_incomplete:
  assumes inc: "\<not> fst (ReadIntoBuffer b ControlSocket ControlData [take k r] 0 s)"
  shows "OnRead a b [drop k r] (OnRead a' b' [take k r] s) = OnRead a b [r] s"
proof -
  from inc have "\<not> fst (ReadIntoBuffer b' ControlSocket ControlData [take k r] 0 s)"
    using ReadIntoBuffer_starts [of b ControlSocket ControlData "[take k r]" 0 s b' ControlSocket 0]
    by simp
  from OnRead_incomplete [OF this, of a']
  have "OnRead a' b' [take k r] s = s\<lparr>control_data := control_data s @ take k r\<rparr>"
    by (simp add: Recv_loop_single del: Recv_loop.simps)
  then show ?thesis
    by (simp add: OnRead_def ReadIntoBuffer_after_partial del: Recv_loop.simps)
qed

lemma OnHangingGetRead_split_incomplete:
  assumes inc: "\<not> fst (ReadIntoBuffer a HangingGet NotificationData [take k r] 0 s)"
    and quiet: "hanging_get s \<noteq> CS_CLOSED \<or> state s \<noteq> CONNECTED"
  shows "OnHangingGetRead a b [drop k r] (OnHangingGetRead a' b' [take k r] s)
           = OnHangingGetRead a b [r] s"
proof -
  from inc have "\<not> fst (ReadIntoBuffer a' HangingGet NotificationData [take k r] 0 s)"
    using ReadIntoBuffer_starts [of a HangingGet NotificationData "[take k r]" 0 s a' HangingGet 0]
    by simp
  from OnHangingGetRead_incomplete [OF this, of b'] quiet
  have "OnHangingGetRead a' b' [take k r] s
               = s\<lparr>notification_data := notification_data s @ take k r\<rparr>"
    by (auto simp add: Recv_loop_single simp del: Recv_loop.simps)
  then show ?thesis
    by (simp add: OnHangingGetRead_def ReadIntoBuffer_after_partial del: Recv_loop.simps)
qed

lemma OnRead_split_one_response:
  assumes r: "one_response r" and empty: "control_data s = []"
  shows "OnRead a b [drop k r] (OnRead a b [take k r] s) = OnRead a b [r] s"
proof (cases "k < length r")
  case True
  from one_response_prefix_incomplete [OF r True, of ControlData s b ControlSocket 0] empty
  have "\<not> fst (ReadIntoBuffer b ControlSocket ControlData [take k r] 0 s)"
    by (simp add: get_buffer_def)
  then show ?thesis by (rule OnRead_split_incomplete)
next
  case False
  from one_response_complete [OF r, of ControlData s b ControlSocket 0] empty
  have "fst (ReadIntoBuffer b ControlSocket ControlData [r] 0 s)"
    by (simp add: get_buffer_def)
  then have "control_data (OnRead a b [r] s) = []"
    by (rule OnRead_complete_clears)
  then have "OnRead a b [[]] (OnRead a b [r] s) = OnRead a b [r] s"
    by (rule OnRead_nothing_read)
  with False show ?thesis by simp
qed

lemma OnHangingGetRead_split_one_response:
  assumes r: "one_response r" and empty: "notification_data s = []"
    and quiet: "hanging_get s \<noteq> CS_CLOSED \<or> state s \<noteq> CONNECTED"
  shows "OnHangingGetRead a b [drop k r] (OnHangingGetRead a b [take k r] s)
           = OnHangingGetRead a b [r] s"
proof (cases "k < length r")
  case True
  from one_response_prefix_incomplete [OF r True, of NotificationData s a HangingGet 0] empty
  have "\<not> fst (ReadIntoBuffer a HangingGet NotificationData [take k r] 0 s)"
    by (simp add: get_buffer_def)
  then show ?thesis using quiet by (rule OnHangingGetRead_split_incomplete)
next
  case False
  from one_response_complete [OF r, of NotificationData s a HangingGet 0] empty
  have "fst (ReadIntoBuffer a HangingGet NotificationData [r] 0 s)"
    by (simp add: get_buffer_def)
  then have "notification_data (OnHangingGetRead a b [r] s) = []"
    by (rule OnHangingGetRead_complete_clears)
  then have "OnHangingGetRead a b [[]] (OnHangingGetRead a b [r] s)
               = OnHangingGetRead a b [r] s"
    using OnHangingGetRead_reconnected [of a b "[r]" s]
    by (rule OnHangingGetRead_nothing_read)
  with False show ?thesis by simp
qed

subsection \<open>First occurrences and decimal numbers\<close>

lemma occurs_at_0: "occurs_at pat t 0 \<longleftrightarrow> starts_with pat t"
  by (auto simp add: occurs_at_def starts_with_take dest: arg_cong [where f = length])

lemma occurs_at_Suc: "occurs_at pat (c # cs) (Suc m) \<longleftrightarrow> occurs_at pat cs m"
  by (simp add: occurs_at_def)

lemma occurs_at_Nil: "pat \<noteq> [] \<Longrightarrow> \<not> occurs_at pat [] m"
  by (simp add: occurs_at_def)

lemma find_aux_first:
  "pat \<noteq> [] \<Longrightarrow>
   find_aux pat t n = Some j
     \<longleftrightarrow> n \<le> j \<and> occurs_at pat t (j - n) \<and> (\<forall>m < j - n. \<not> occurs_at pat t m)"
proof (induction t arbitrary: n)
  case Nil
  then show ?case by (simp add: occurs_at_Nil)
next
  case (Cons c cs)
  show ?case
  proof (cases "starts_with pat (c # cs)")
    case True
    then have o: "occurs_at pat (c # cs) 0" by (simp add: occurs_at_0)
    have "find_aux pat (c # cs) n = Some j \<longleftrightarrow> j = n" using True by auto
    also have "\<dots> \<longleftrightarrow> n \<le> j \<and> occurs_at pat (c # cs) (j - n)
                      \<and> (\<forall>m < j - n. \<not> occurs_at pat (c # cs) m)"
    proof
      assume "j = n" with o show "n \<le> j \<and> occurs_at pat (c # cs) (j - n)
                      \<and> (\<forall>m < j - n. \<not> occurs_at pat (c # cs) m)" by simp
    next
      assume r: "n \<le> j \<and> occurs_at pat (c # cs) (j - n)
                      \<and> (\<forall>m < j - n. \<not> occurs_at pat (c # cs) m)"
      show "j = n"
      proof (rule ccontr)
        assume "j \<noteq> n"
        with r have "0 < j - n" by simp
        with r o show False by blast
      qed
    qed
    finally show ?thesis .
  next
    case False
    then have o: "\<not> occurs_at pat (c # cs) 0" by (simp add: occurs_at_0)
    have "find_aux pat (c # cs) n = Some j \<longleftrightarrow> find_aux pat cs (Suc n) = Some j"
      using False by simp
    also have "\<dots> \<longleftrightarrow> Suc n \<le> j \<and> occurs_at pat cs (j - Suc n)
                      \<and> (\<forall>m < j - Suc n. \<not> occurs_at pat cs m)"
      by (rule Cons.IH [OF Cons.prems])
    also have "\<dots> \<longleftrightarrow> n \<le> j \<and> occurs_at pat (c # cs) (j - n)
                      \<and> (\<forall>m < j - n. \<not> occurs_at pat (c # cs) m)"
    proof
      assume l: "Suc n \<le> j \<and> occurs_at pat cs (j - Suc n)
                      \<and> (\<forall>m < j - Suc n. \<not> occurs_at pat cs m)"
      then have e: "j - n = Suc (j - Suc n)" by arith
      have "\<not> occurs_at pat (c # cs) m" if "m < j - n" for m
      proof (cases m)
        case 0
        with o show ?thesis by simp
      next
        case (Suc m')
        with that e have "m' < j - Suc n" by simp
        with l Suc show ?thesis by (simp add: occurs_at_Suc)
      qed
      with l e show "n \<le> j \<and> occurs_at pat (c # cs) (j - n)
                      \<and> (\<forall>m < j - n. \<not> occurs_at pat (c # cs) m)"
        by (simp add: occurs_at_Suc)
    next
      assume r: "n \<le> j \<and> occurs_at pat (c # cs) (j - n)
                      \<and> (\<forall>m < j - n. \<not> occurs_at pat (c # cs) m)"
      with o have "j \<noteq> n" by auto
      with r have e: "j - n = Suc (j - Suc n)" and le: "Suc n \<le> j" by arith+
      have "\<not> occurs_at pat cs m" if "m < j - Suc n" for m
      proof -
        from that e have "Suc m < j - n" by simp
        with r have "\<not> occurs_at pat (c # cs) (Suc m)" by blast
        then show ?thesis by (simp add: occurs_at_Suc)
      qed
      moreover from r e have "occurs_at pat cs (j - Suc n)" by (simp add: occurs_at_Suc)
      ultimately show "Suc n \<le> j \<and> occurs_at pat cs (j - Suc n)
                      \<and> (\<forall>m < j - Suc n. \<not> occurs_at pat cs m)"
        using le by blast
    qed
    finally show ?thesis .
  qed
qed

lemma str_find_first_occurrence:
  "pat \<noteq> [] \<Longrightarrow> str_find d pat 0 = Some i \<longleftrightarrow> first_occurrence pat d i"
  by (auto simp add: str_find_def find_aux_first first_occurrence_def list_all_iff)

lemma isdigit_int: "isdigit c \<Longrightarrow> int (of_char c - 48) = of_char c - 48"
  by (simp add: isdigit_def of_nat_diff of_nat_of_char)

lemma atoi_digits_decimal:
  "atoi_digits acc t
     = acc * 10 ^ length (takeWhile isdigit t) + int (decimal (takeWhile isdigit t))"
proof (induction t arbitrary: acc)
  case Nil
  then show ?case by simp
next
  case (Cons c cs)
  show ?case
  proof (cases "isdigit c")
    case True
    define n where "n = (of_char c - 48 :: nat)"
    define k where "k = length (takeWhile isdigit cs)"
    define r where "r = decimal (takeWhile isdigit cs)"
    have n: "of_char c - 48 = int n"
      using isdigit_int [OF True] by (simp only: n_def)
    have "atoi_digits acc (c # cs) = atoi_digits (acc * 10 + int n) cs"
      using True by (simp only: atoi_digits.simps n if_True)
    also have "\<dots> = (acc * 10 + int n) * 10 ^ k + int r"
      unfolding k_def r_def by (rule Cons.IH)
    also have "\<dots> = acc * 10 ^ Suc k + int (n * 10 ^ k + r)"
      by (simp add: algebra_simps)
    also have "n * 10 ^ k + r = decimal (takeWhile isdigit (c # cs))"
      using True by (simp add: n_def k_def r_def)
    also have "Suc k = length (takeWhile isdigit (c # cs))"
      using True by (simp add: k_def)
    finally show ?thesis .
  next
    case False
    then show ?thesis by simp
  qed
qed

lemma mod_negative:
  fixes v M :: int
  assumes "- M \<le> v" and "v < 0"
  shows "v mod M = v + M"
proof -
  from assms have "0 \<le> v + M" and "v + M < M" by simp_all
  then have "(v + M) mod M = v + M" by (rule mod_pos_pos_trivial)
  then show ?thesis by simp
qed

lemma wrap_int_range:
  assumes "- (2 ^ 31) \<le> v" and "v < 2 ^ 31"
  shows "wrap_int v = v"
proof (cases "0 \<le> v")
  case True
  with assms have "v mod 2 ^ 32 = v" by simp
  with assms show ?thesis by (simp add: wrap_int_def Let_def)
next
  case False
  with assms have "v mod 2 ^ 32 = v + 2 ^ 32"
    by (intro mod_negative) simp_all
  with assms False show ?thesis by (simp add: wrap_int_def Let_def)
qed

lemma size_t_of_int_neg:
  assumes "0 < n" and "n < 2 ^ 64"
  shows "size_t_of_int (- int n) = 2 ^ 64 - n"
proof -
  have "(- int n) mod 2 ^ 64 = - int n + 2 ^ 64"
    using assms by (intro mod_negative) simp_all
  then have "size_t_of_int (- int n) = nat (2 ^ 64 - int n)"
    by (simp add: size_t_of_int_def)
  also have "\<dots> = 2 ^ 64 - n"
    using assms by (simp add: nat_diff_distrib')
  finally show ?thesis .
qed

lemma atoi_spec_content_length:
  assumes "spec_number t < 2 ^ 31"
  shows "size_t_of_int (atoi t) = spec_content_length t"
proof (cases "dropWhile isspace t")
  case Nil
  then have "atoi t = 0" and "spec_number t = 0" and "\<not> spec_negative t"
    by (simp_all add: atoi_def spec_number_def spec_negative_def wrap_int_def
        del: dropWhile_eq_Nil_conv)
  then show ?thesis
    by (simp add: spec_content_length_def size_t_of_int_def)
next
  case (Cons c cs)
  define n where "n = spec_number t"
  have n: "n < 2 ^ 31" using assms by (simp add: n_def)
  show ?thesis
  proof (cases "c = CHR ''-''")
    case True
    have num: "spec_number t = decimal (takeWhile isdigit cs)"
      using Cons True by (simp add: spec_number_def)
    have "atoi t = wrap_int (- int n)"
      using Cons True by (simp add: atoi_def atoi_digits_decimal n_def num)
    also have "\<dots> = - int n"
      using n by (intro wrap_int_range) simp_all
    finally have a: "atoi t = - int n" .
    have neg: "spec_negative t" using Cons True by (simp add: spec_negative_def)
    show ?thesis
    proof (cases "n = 0")
      case True
      then show ?thesis
        by (simp add: a spec_content_length_def n_def [symmetric] size_t_of_int_def)
    next
      case False
      then have "size_t_of_int (- int n) = 2 ^ 64 - n"
        using n by (intro size_t_of_int_neg) simp_all
      with False neg show ?thesis
        by (simp add: a spec_content_length_def n_def [symmetric])
    qed
  next
    case False
    have pos: "\<not> spec_negative t" using Cons False by (simp add: spec_negative_def)
    have "atoi t = wrap_int (int n)"
    proof (cases "c = CHR ''+''")
      case True
      have "spec_number t = decimal (takeWhile isdigit cs)"
        using Cons True by (simp add: spec_number_def)
      then show ?thesis
        using Cons True by (simp add: atoi_def atoi_digits_decimal n_def)
    next
      case plus: False
      have "spec_number t = decimal (takeWhile isdigit (c # cs))"
        using Cons False plus by (simp add: spec_number_def)
      then show ?thesis
        using Cons False plus
        by (simp add: atoi_def n_def atoi_digits_decimal [of 0 "c # cs"]
            del: atoi_digits.simps takeWhile.simps)
    qed
    also have "\<dots> = int n"
      using n by (intro wrap_int_range) simp_all
    finally have a: "atoi t = int n" .
    have "size_t_of_int (int n) = n"
      using n by (simp add: size_t_of_int_def)
    with pos show ?thesis
      by (simp add: a spec_content_length_def n_def [symmetric])
  qed
qed


section \<open>The hang-up message\<close>

text \<open>
  Claim C1. A complete long-poll response whose \<^verbatim>\<open>Pragma\<close> id is another peer's and
  whose body is \<^verbatim>\<open>BYE\<close> is said to remove that peer from the peer directory and to fire
  peer-disconnected once. The client with id 3 that knows peer 7 as \<^verbatim>\<open>alice\<close> and reads
  such a response from peer 7 calls \<^verbatim>\<open>OnPeerDisconnected(7)\<close> once and delivers no
  message, but \<^verbatim>\<open>peers_\<close> is left as it was: peer 7 is still in the directory.
  \<^verbatim>\<open>OnMessageFromPeer\<close> never touches \<^verbatim>\<open>peers_\<close>, although its comment announces the
  removal and the other path to \<^verbatim>\<open>OnPeerDisconnected\<close>, in \<^verbatim>\<open>OnHangingGetRead\<close>, erases
  the peer first.
\<close>

theorem bye_leaves_peer_in_directory:
  "(let s = new_client\<lparr>state := CONNECTED, my_id := 3, hanging_get := CS_CONNECTED,
                          peers := [7 \<mapsto> ''alice'']\<rparr>;
        s' = OnHangingGetRead starts1 starts2
               [''HTTP/1.0 200 OK'' @ CRLF @ ''Pragma: 7'' @ CRLF @ ''Content-Length: 3''
                @ CRLF @ CRLF @ ''BYE''] s
    in callbacks s' = [Cb_OnPeerDisconnected 7] \<and> peers s' 7 = Some ''alice''
       \<and> peers s' = peers s)"
  by (simp add: prim_defs client_defs Let_def)

section \<open>Sending while a send is in flight\<close>

text \<open>
  Claim C2, as the specification states it, fails: \<^verbatim>\<open>SendToPeer\<close> has no guard against
  a send in flight; that the control socket is closed is only an \<^verbatim>\<open>RTC_DCHECK\<close>, and
  callers are to ask \<^verbatim>\<open>IsSendingMessage()\<close> first. After a first \<^verbatim>\<open>SendToPeer\<close> whose
  connection attempt has started (\<^verbatim>\<open>IsSendingMessage()\<close> is true and the first request is
  the pending outbound buffer), a second call replaces the pending buffer by the second
  request and returns true when the socket accepts the connection attempt; when the socket
  refuses it, the call returns false through \<^verbatim>\<open>Close()\<close>, which empties the pending
  buffer. In neither case are the first request's queued bytes left as they were.
\<close>

theorem SendToPeer_in_flight_counterexample:
  "IsSendingMessage
     (snd (SendToPeer True 7 ''hello'' (new_client\<lparr>state := CONNECTED, my_id := 3\<rparr>)))
   \<and> onconnect_data
       (snd (SendToPeer True 7 ''hello'' (new_client\<lparr>state := CONNECTED, my_id := 3\<rparr>)))
       = message_request 3 7 ''hello''
   \<and> fst (SendToPeer True 7 ''world''
        (snd (SendToPeer True 7 ''hello'' (new_client\<lparr>state := CONNECTED, my_id := 3\<rparr>))))
   \<and> onconnect_data (snd (SendToPeer True 7 ''world''
        (snd (SendToPeer True 7 ''hello'' (new_client\<lparr>state := CONNECTED, my_id := 3\<rparr>)))))
       = message_request 3 7 ''world''
   \<and> onconnect_data (snd (SendToPeer False 7 ''world''
        (snd (SendToPeer True 7 ''hello'' (new_client\<lparr>state := CONNECTED, my_id := 3\<rparr>)))))
       = []
   \<and> message_request 3 7 ''world'' \<noteq> message_request 3 7 ''hello''
   \<and> message_request 3 7 ''hello'' \<noteq> []"
  by (simp add: SendToPeer_def is_connected_def ConnectControlSocket_def Socket_Connect_def
      SOCKET_ERROR_def IsSendingMessage_def GetState_def new_client_def Close_def
      Socket_Close_def message_request_def snprintf1024_def)

text \<open>
  Claim C2, as amended. There is one pending outbound buffer, \<^verbatim>\<open>onconnect_data_\<close>.
  \<^verbatim>\<open>SendToPeer\<close> returns false and changes nothing when the client is not in state
  \<^verbatim>\<open>CONNECTED\<close>, has no id, or the peer id is \<open>-1\<close>. Otherwise, whatever the state of
  the control socket, it stores the new request as the pending buffer and tries to connect
  the control socket: it returns true when the attempt starts, and when the attempt is
  refused it closes the session (which empties the pending buffer) and returns false.
  Whether a send is in flight is what \<^verbatim>\<open>IsSendingMessage\<close> tells the caller: the client
  is \<^verbatim>\<open>CONNECTED\<close> and the control socket is not closed.
\<close>

theorem SendToPeer_effect:
  "(state s \<noteq> CONNECTED \<or> my_id s = -1 \<or> peer_id = -1
      \<longrightarrow> SendToPeer starts peer_id message s = (False, s))
   \<and> (state s = CONNECTED \<and> my_id s \<noteq> -1 \<and> peer_id \<noteq> -1
      \<longrightarrow> SendToPeer True peer_id message s
            = (True, s\<lparr>onconnect_data := message_request (my_id s) peer_id message,
                       control_socket := CS_CONNECTING\<rparr>)
          \<and> SendToPeer False peer_id message s
            = (False, Close (s\<lparr>onconnect_data := message_request (my_id s) peer_id message\<rparr>)))
   \<and> (IsSendingMessage s \<longleftrightarrow> state s = CONNECTED \<and> control_socket s \<noteq> CS_CLOSED)"
  by (simp add: SendToPeer_def is_connected_def ConnectControlSocket_def Socket_Connect_def
      SOCKET_ERROR_def IsSendingMessage_def GetState_def)

theorem SendToPeer_effect_witness:
  "state new_client \<noteq> CONNECTED
   \<and> SendToPeer True 7 ''hello'' new_client = (False, new_client)
   \<and> state (new_client\<lparr>state := CONNECTED, my_id := 3\<rparr>) = CONNECTED
   \<and> my_id (new_client\<lparr>state := CONNECTED, my_id := 3\<rparr>) \<noteq> -1
   \<and> (7 :: int) \<noteq> -1
   \<and> SendToPeer True 7 ''hello'' (new_client\<lparr>state := CONNECTED, my_id := 3\<rparr>)
       = (True, new_client\<lparr>state := CONNECTED, my_id := 3,
                  onconnect_data := message_request 3 7 ''hello'',
                  control_socket := CS_CONNECTING\<rparr>)
   \<and> fst (SendToPeer False 7 ''hello'' (new_client\<lparr>state := CONNECTED, my_id := 3\<rparr>)) = False"
  using SendToPeer_effect [of new_client 7 True "''hello''"]
    SendToPeer_effect [of "new_client\<lparr>state := CONNECTED, my_id := 3\<rparr>" 7 True "''hello''"]
  by (simp add: new_client_def)

section \<open>Close\<close>

text \<open>
  Claim C3, as the specification states it, fails: \<^verbatim>\<open>Close()\<close> does not clear the two
  receive buffers. A client that holds the beginning of a response in \<^verbatim>\<open>control_data_\<close>
  still holds it after \<^verbatim>\<open>Close()\<close>.
\<close>

theorem Close_keeps_receive_buffer_counterexample:
  "control_data (Close (new_client\<lparr>control_data := ''HTTP/1.0 2''\<rparr>)) = ''HTTP/1.0 2''
   \<and> notification_data (Close (new_client\<lparr>notification_data := ''HTTP/1.0 2''\<rparr>))
       = ''HTTP/1.0 2''"
  by (simp add: Close_def Socket_Close_def new_client_def)

text \<open>
  Claim C3, as amended. From every state, \<^verbatim>\<open>Close()\<close> closes both sockets, empties the
  pending outbound buffer and the peer directory, drops the resolver (cancelling a
  resolution in flight), resets the self id to \<open>-1\<close> and the state to
  \<^verbatim>\<open>NOT_CONNECTED\<close>. It leaves both receive buffers as they are, calls no observer
  method, sends nothing and posts no task.
\<close>

theorem Close_effect:
  "control_socket (Close s) = CS_CLOSED \<and> hanging_get (Close s) = CS_CLOSED
   \<and> onconnect_data (Close s) = [] \<and> peers (Close s) = Map.empty
   \<and> resolver (Close s) = False \<and> my_id (Close s) = -1 \<and> state (Close s) = NOT_CONNECTED
   \<and> control_data (Close s) = control_data s
   \<and> notification_data (Close s) = notification_data s
   \<and> callbacks (Close s) = callbacks s \<and> sent (Close s) = sent s
   \<and> delayed_tasks (Close s) = delayed_tasks s"
  by (simp add: Close_def Socket_Close_def)

section \<open>Connection refused\<close>

text \<open>
  Claim C5. A close event with \<^verbatim>\<open>ECONNREFUSED\<close> on the control socket closes that
  socket and posts exactly one task, \<^verbatim>\<open>DoConnect\<close> after 2000 ms, in every state (so
  also when the session is not signing out); nothing else changes. On the hanging get it
  posts no task: the session is closed and the observer is told \<^verbatim>\<open>OnDisconnected\<close>
  once. Retries do not pile up: a refusal, the run of the posted retry and a second
  refusal leave one more pending task than there was at the start.
\<close>

theorem OnClose_connection_refused:
  "OnClose starts ControlSocket ECONNREFUSED s
     = s\<lparr>control_socket := CS_CLOSED,
         delayed_tasks := delayed_tasks s @ [(2000, Task_DoConnect)]\<rparr>
   \<and> OnClose starts HangingGet ECONNREFUSED s
     = (Close s)\<lparr>callbacks := callbacks s @ [Cb_OnDisconnected]\<rparr>
   \<and> delayed_tasks (OnClose starts HangingGet ECONNREFUSED s) = delayed_tasks s
   \<and> length (delayed_tasks
         (OnClose starts3 ControlSocket ECONNREFUSED
            (run_delayed_task starts2 (OnClose starts1 ControlSocket ECONNREFUSED s))))
       = length (delayed_tasks s) + 1"
proof (intro conjI)
  show "OnClose starts ControlSocket ECONNREFUSED s
          = s\<lparr>control_socket := CS_CLOSED,
              delayed_tasks := delayed_tasks s @ [(2000, Task_DoConnect)]\<rparr>"
    by (simp add: OnClose_def Socket_Close_def kReconnectDelay_def)
  show "OnClose starts HangingGet ECONNREFUSED s
          = (Close s)\<lparr>callbacks := callbacks s @ [Cb_OnDisconnected]\<rparr>"
    by (simp add: OnClose_def Socket_Close_def Close_def notify_def)
  show "delayed_tasks (OnClose starts HangingGet ECONNREFUSED s) = delayed_tasks s"
    by (simp add: OnClose_def Socket_Close_def Close_def notify_def)
  show "length (delayed_tasks
          (OnClose starts3 ControlSocket ECONNREFUSED
             (run_delayed_task starts2 (OnClose starts1 ControlSocket ECONNREFUSED s))))
        = length (delayed_tasks s) + 1"
    by (cases "delayed_tasks s")
      (simp_all add: OnClose_def Socket_Close_def run_delayed_task_def
        delayed_tasks_DoConnect split: prod.splits task.splits)
qed

section \<open>The port of Connect\<close>

text \<open>
  Claim C10. A call of \<^verbatim>\<open>Connect(server, port, client_name)\<close> that the client accepts
  (it is \<^verbatim>\<open>NOT_CONNECTED\<close>, and neither string is empty) stores the server with the
  default port when \<open>port \<le> 0\<close> and with the caller's port when it is positive; a call
  it rejects leaves the stored address alone.
\<close>

theorem Connect_port:
  "server_address (Connect kDefaultServerPort IsUnresolvedIP starts server port name s)
     = (if state s = NOT_CONNECTED \<and> server \<noteq> [] \<and> name \<noteq> []
        then (server, if port \<le> 0 then kDefaultServerPort else port)
        else server_address s)"
  by (simp add: Connect_def DoConnect_def ConnectControlSocket_def Socket_Connect_def
      Close_def Socket_Close_def notify_def Let_def)

section \<open>Signing out twice\<close>

text \<open>
  Claim C7, as the specification states it, fails: two calls of \<^verbatim>\<open>SignOut\<close> in
  immediate succession do not always produce a sign-out request and a disconnected
  notification. A client that has no id yet and whose control socket is closed (here the
  connection attempt of the sign-in has timed out) goes to \<^verbatim>\<open>SIGNING_OUT\<close> without a
  request (``Can occur if the app is closed before we finish connecting'', says the
  source): nothing is sent, no socket is left open, no task is posted, and
  \<^verbatim>\<open>OnDisconnected\<close> is not called. A client whose sign-in request is in flight goes to
  \<^verbatim>\<open>SIGNING_OUT_WAITING\<close>; the sign-in response then takes the branch of \<^verbatim>\<open>OnRead\<close>
  for a client without id, which comes before the branches that look at the state (its
  \<^verbatim>\<open>RTC_DCHECK(state_ == SIGNING_IN)\<close> is compiled out): the client gets its id, the
  observer is told \<^verbatim>\<open>OnSignedIn\<close>, and neither a sign-out request nor
  \<^verbatim>\<open>OnDisconnected\<close> follows.
\<close>

theorem SignOut_no_request_counterexample:
  "(let s0 = OnClose True ControlSocket 110
               (Connect 8888 (\<lambda>h. False) True ''10.0.0.1'' 8888 ''alice'' new_client);
        s2 = snd (SignOut True (snd (SignOut True s0)))
    in state s0 = SIGNING_IN \<and> my_id s0 = -1 \<and> control_socket s0 = CS_CLOSED
       \<and> fst (SignOut True s0)
       \<and> state s2 = SIGNING_OUT
       \<and> sent s2 = []
       \<and> callbacks s2 = [Cb_OnMessageSent 110]
       \<and> control_socket s2 = CS_CLOSED \<and> hanging_get s2 = CS_CLOSED
       \<and> delayed_tasks s2 = [])
   \<and> (let s0 = OnConnect ControlSocket
               (Connect 8888 (\<lambda>h. False) True ''10.0.0.1'' 8888 ''alice'' new_client);
           s2 = snd (SignOut True (snd (SignOut True s0)));
           s3 = OnRead True True
                  [''HTTP/1.0 200 OK'' @ CRLF @ ''Connection: close'' @ CRLF
                   @ ''Pragma: 3'' @ CRLF @ ''Content-Length: 10'' @ CRLF @ CRLF
                   @ ''alice,3,1'' @ [LF]]
                  s2
       in state s0 = SIGNING_IN \<and> my_id s0 = -1 \<and> control_socket s0 = CS_CONNECTING
          \<and> sent s0 = [(ControlSocket, ''GET /sign_in?alice HTTP/1.0'' @ CRLF @ CRLF)]
          \<and> state s2 = SIGNING_OUT_WAITING
          \<and> state s3 = SIGNING_OUT_WAITING
          \<and> my_id s3 = 3
          \<and> sent s3 = [(ControlSocket, ''GET /sign_in?alice HTTP/1.0'' @ CRLF @ CRLF)]
          \<and> callbacks s3 = [Cb_OnMessageSent 0, Cb_OnSignedIn]
          \<and> onconnect_data s3 = []
          \<and> control_socket s3 = CS_CLOSED \<and> hanging_get s3 = CS_CLOSED
          \<and> delayed_tasks s3 = [])"
  by (simp add: prim_defs client_defs Let_def)

text \<open>
  Claim C7, as amended. The record describes a client whose two sockets exist; for such a
  client, in every state, a second \<^verbatim>\<open>SignOut\<close> right after a first returns true and
  changes nothing, so it queues no request, sends nothing and notifies nobody. In state
  \<^verbatim>\<open>NOT_CONNECTED\<close> or \<^verbatim>\<open>SIGNING_OUT\<close> a call returns true at once and leaves the
  client as it is (the source returns there before it touches a socket). In every other
  state it closes the hanging get and then

    \<^item> with the control socket not closed, only sets \<^verbatim>\<open>SIGNING_OUT_WAITING\<close>;

    \<^item> with the control socket closed and no id, only sets \<^verbatim>\<open>SIGNING_OUT\<close>;

    \<^item> with the control socket closed and an id, sets \<^verbatim>\<open>SIGNING_OUT\<close>, stores the
      sign-out request as the pending outbound buffer and tries to connect the control
      socket: when the attempt starts the socket is connecting and the call returns true,
      when it is refused the session is closed and the call returns false.

  For a client with an id and a closed control socket, after the two calls and the
  completion of the connection exactly one request has been sent, the sign-out request,
  no observer call has been made, and the complete response to it adds exactly one
  \<^verbatim>\<open>OnDisconnected\<close>. For a client with an id and an exchange in flight on the control
  socket, the two calls send nothing and notify nobody; when the complete response of that
  exchange has status 200 and closes the control socket (\<^verbatim>\<open>Connection: close\<close>),
  \<^verbatim>\<open>OnRead\<close> reports the close with \<^verbatim>\<open>OnMessageSent(0)\<close> and calls \<^verbatim>\<open>SignOut\<close> again,
  which stores the sign-out request and starts the connection; after its completion
  exactly one request has been sent, the sign-out request, and the complete response to it
  adds exactly one \<^verbatim>\<open>OnDisconnected\<close>. When the response of the exchange in flight
  leaves the control socket open, \<^verbatim>\<open>OnRead\<close> only clears the receive buffer and the
  client stays in \<^verbatim>\<open>SIGNING_OUT_WAITING\<close>.
\<close>

theorem SignOut_idempotent:
  "SignOut b (snd (SignOut a s)) = (True, snd (SignOut a s))
   \<and> (state s = NOT_CONNECTED \<or> state s = SIGNING_OUT \<longrightarrow> SignOut a s = (True, s))
   \<and> (state s \<noteq> NOT_CONNECTED \<and> state s \<noteq> SIGNING_OUT \<and> control_socket s \<noteq> CS_CLOSED \<longrightarrow>
        SignOut a s = (True, s\<lparr>hanging_get := CS_CLOSED, state := SIGNING_OUT_WAITING\<rparr>))
   \<and> (state s \<noteq> NOT_CONNECTED \<and> state s \<noteq> SIGNING_OUT \<and> control_socket s = CS_CLOSED
        \<and> my_id s = -1 \<longrightarrow>
        SignOut a s = (True, s\<lparr>hanging_get := CS_CLOSED, state := SIGNING_OUT\<rparr>))
   \<and> (state s \<noteq> NOT_CONNECTED \<and> state s \<noteq> SIGNING_OUT \<and> control_socket s = CS_CLOSED
        \<and> my_id s \<noteq> -1 \<longrightarrow>
        SignOut True s
          = (True, s\<lparr>hanging_get := CS_CLOSED, state := SIGNING_OUT,
                      onconnect_data := sign_out_request (my_id s),
                      control_socket := CS_CONNECTING\<rparr>)
        \<and> SignOut False s
          = (False, Close (s\<lparr>hanging_get := CS_CLOSED, state := SIGNING_OUT,
                              onconnect_data := sign_out_request (my_id s)\<rparr>))
        \<and> (let s3 = OnConnect ControlSocket (snd (SignOut b (snd (SignOut True s))))
           in sent s3 = sent s @ [(ControlSocket, sign_out_request (my_id s))]
              \<and> callbacks s3 = callbacks s
              \<and> onconnect_data s3 = []
              \<and> state s3 = SIGNING_OUT
              \<and> (fst (ReadIntoBuffer n ControlSocket ControlData reply 0 s3) \<longrightarrow>
                   length (filter (\<lambda>e. e = Cb_OnDisconnected) (callbacks (OnRead c n reply s3)))
                     = length (filter (\<lambda>e. e = Cb_OnDisconnected) (callbacks s)) + 1)))
   \<and> (state s \<noteq> NOT_CONNECTED \<and> state s \<noteq> SIGNING_OUT \<and> control_socket s \<noteq> CS_CLOSED
        \<and> my_id s \<noteq> -1
        \<and> fst (ReadIntoBuffer n ControlSocket ControlData chunks 0 s)
        \<and> GetResponseStatus (c_str (Recv_loop chunks (control_data s))) = 200
        \<and> GetHeaderValue_string (Recv_loop chunks (control_data s))
             (the (str_find (Recv_loop chunks (control_data s)) (CRLF @ CRLF) 0)) kConnection
           = Some ''close'' \<longrightarrow>
        (let s2 = snd (SignOut b (snd (SignOut a s)));
             s3 = OnRead True n chunks s2;
             s4 = OnConnect ControlSocket s3
         in sent s2 = sent s \<and> callbacks s2 = callbacks s \<and> onconnect_data s2 = onconnect_data s
            \<and> state s3 = SIGNING_OUT
            \<and> control_socket s3 = CS_CONNECTING
            \<and> onconnect_data s3 = sign_out_request (my_id s)
            \<and> sent s3 = sent s
            \<and> callbacks s3 = callbacks s @ [Cb_OnMessageSent 0]
            \<and> sent s4 = sent s @ [(ControlSocket, sign_out_request (my_id s))]
            \<and> callbacks s4 = callbacks s @ [Cb_OnMessageSent 0]
            \<and> (fst (ReadIntoBuffer n ControlSocket ControlData reply 0 s4) \<longrightarrow>
                 length (filter (\<lambda>e. e = Cb_OnDisconnected) (callbacks (OnRead c n reply s4)))
                   = length (filter (\<lambda>e. e = Cb_OnDisconnected) (callbacks s)) + 1)))
   \<and> (state s \<noteq> NOT_CONNECTED \<and> state s \<noteq> SIGNING_OUT \<and> control_socket s \<noteq> CS_CLOSED
        \<and> my_id s \<noteq> -1
        \<and> fst (ReadIntoBuffer n ControlSocket ControlData chunks 0 s)
        \<and> GetResponseStatus (c_str (Recv_loop chunks (control_data s))) = 200
        \<and> GetHeaderValue_string (Recv_loop chunks (control_data s))
             (the (str_find (Recv_loop chunks (control_data s)) (CRLF @ CRLF) 0)) kConnection
           \<noteq> Some ''close'' \<longrightarrow>
        OnRead c n chunks (snd (SignOut b (snd (SignOut a s))))
          = s\<lparr>hanging_get := CS_CLOSED, state := SIGNING_OUT_WAITING, control_data := []\<rparr>)"
proof (intro conjI impI)
  show "SignOut b (snd (SignOut a s)) = (True, snd (SignOut a s))"
    by (rule SignOut_twice)
  show "SignOut a s = (True, s)" if "state s = NOT_CONNECTED \<or> state s = SIGNING_OUT"
    using that by (auto simp add: SignOut_def)
  show "SignOut a s = (True, s\<lparr>hanging_get := CS_CLOSED, state := SIGNING_OUT_WAITING\<rparr>)"
    if "state s \<noteq> NOT_CONNECTED \<and> state s \<noteq> SIGNING_OUT \<and> control_socket s \<noteq> CS_CLOSED"
    using that by (simp add: SignOut_busy)
  show "SignOut a s = (True, s\<lparr>hanging_get := CS_CLOSED, state := SIGNING_OUT\<rparr>)"
    if "state s \<noteq> NOT_CONNECTED \<and> state s \<noteq> SIGNING_OUT \<and> control_socket s = CS_CLOSED
        \<and> my_id s = -1"
    using that by (simp add: SignOut_idle_no_id)
  {
    assume idle: "state s \<noteq> NOT_CONNECTED \<and> state s \<noteq> SIGNING_OUT
        \<and> control_socket s = CS_CLOSED \<and> my_id s \<noteq> -1"
    then have first: "SignOut True s
          = (True, s\<lparr>hanging_get := CS_CLOSED, state := SIGNING_OUT,
                      onconnect_data := sign_out_request (my_id s),
                      control_socket := CS_CONNECTING\<rparr>)"
      by (simp add: SignOut_idle_with_id)
    then show "SignOut True s
          = (True, s\<lparr>hanging_get := CS_CLOSED, state := SIGNING_OUT,
                      onconnect_data := sign_out_request (my_id s),
                      control_socket := CS_CONNECTING\<rparr>)" .
    from idle show "SignOut False s
          = (False, Close (s\<lparr>hanging_get := CS_CLOSED, state := SIGNING_OUT,
                              onconnect_data := sign_out_request (my_id s)\<rparr>))"
      by (simp add: SignOut_idle_refused)
    define s3 where "s3 = OnConnect ControlSocket (snd (SignOut b (snd (SignOut True s))))"
    have s3: "s3 = s\<lparr>hanging_get := CS_CLOSED, state := SIGNING_OUT,
                     onconnect_data := [],
                     control_socket := CS_CONNECTING,
                     sent := sent s @ [(ControlSocket, sign_out_request (my_id s))]\<rparr>"
    proof -
      have "snd (SignOut b (snd (SignOut True s))) = snd (SignOut True s)"
        by (simp add: SignOut_twice)
      then show ?thesis
        by (simp add: s3_def first OnConnect_def Socket_Send_def)
    qed
    have fields: "sent s3 = sent s @ [(ControlSocket, sign_out_request (my_id s))]"
      "callbacks s3 = callbacks s" "onconnect_data s3 = []" "state s3 = SIGNING_OUT"
      "my_id s3 \<noteq> -1"
      using idle by (simp_all add: s3)
    have "length (filter (\<lambda>e. e = Cb_OnDisconnected) (callbacks (OnRead c n reply s3)))
            = length (filter (\<lambda>e. e = Cb_OnDisconnected) (callbacks s)) + 1"
      if "fst (ReadIntoBuffer n ControlSocket ControlData reply 0 s3)"
      using OnRead_signing_out [OF fields(4) fields(5) that, of c] fields(2) by simp
    with fields show "let s3 = OnConnect ControlSocket (snd (SignOut b (snd (SignOut True s))))
           in sent s3 = sent s @ [(ControlSocket, sign_out_request (my_id s))]
              \<and> callbacks s3 = callbacks s
              \<and> onconnect_data s3 = []
              \<and> state s3 = SIGNING_OUT
              \<and> (fst (ReadIntoBuffer n ControlSocket ControlData reply 0 s3) \<longrightarrow>
                   length (filter (\<lambda>e. e = Cb_OnDisconnected) (callbacks (OnRead c n reply s3)))
                     = length (filter (\<lambda>e. e = Cb_OnDisconnected) (callbacks s)) + 1)"
      unfolding s3_def [symmetric] Let_def by simp
  }
  {
    fix h :: bool
    assume busy: "state s \<noteq> NOT_CONNECTED \<and> state s \<noteq> SIGNING_OUT
        \<and> control_socket s \<noteq> CS_CLOSED \<and> my_id s \<noteq> -1
        \<and> fst (ReadIntoBuffer n ControlSocket ControlData chunks 0 s)
        \<and> GetResponseStatus (c_str (Recv_loop chunks (control_data s))) = 200
        \<and> (GetHeaderValue_string (Recv_loop chunks (control_data s))
             (the (str_find (Recv_loop chunks (control_data s)) (CRLF @ CRLF) 0)) kConnection
           = Some ''close'') = h"
    define s2 where "s2 = snd (SignOut b (snd (SignOut a s)))"
    have "s2 = snd (SignOut a s)"
      by (simp add: s2_def SignOut_twice)
    then have s2: "s2 = s\<lparr>hanging_get := CS_CLOSED, state := SIGNING_OUT_WAITING\<rparr>"
      using busy by (simp add: SignOut_busy)
    have s2_fields: "state s2 = SIGNING_OUT_WAITING" "my_id s2 \<noteq> -1"
      "control_data s2 = control_data s" "control_socket s2 \<noteq> CS_CLOSED"
      using busy by (simp_all add: s2)
    have "fst (ReadIntoBuffer n ControlSocket ControlData chunks 0 s2)
            = fst (ReadIntoBuffer n ControlSocket ControlData chunks 0 s)"
      by (rule ReadIntoBuffer_fst_buffer) (simp add: get_buffer_def s2_fields)
    with busy have complete: "fst (ReadIntoBuffer n ControlSocket ControlData chunks 0 s2)"
      by simp
    from busy have status: "GetResponseStatus (c_str (Recv_loop chunks (control_data s2))) = 200"
      by (simp add: s2_fields)
    note read = OnRead_signing_out_waiting [OF s2_fields(1) s2_fields(2) complete status]
    have pending: "OnRead c n chunks s2
          = s\<lparr>hanging_get := CS_CLOSED, state := SIGNING_OUT_WAITING, control_data := []\<rparr>"
      if "\<not> h"
    proof -
      have "snd (SignOut c s2) = s2"
        using s2_fields by (simp add: SignOut_busy s2)
      with read [of c] busy that show ?thesis
        by (simp add: s2_fields) (simp add: s2)
    qed
    define s3 where "s3 = OnRead True n chunks s2"
    define s4 where "s4 = OnConnect ControlSocket s3"
    have s3: "s3 = s\<lparr>hanging_get := CS_CLOSED, state := SIGNING_OUT,
                     onconnect_data := sign_out_request (my_id s),
                     control_socket := CS_CONNECTING,
                     callbacks := callbacks s @ [Cb_OnMessageSent 0],
                     control_data := []\<rparr>"
      if h
    proof -
      define t where "t = s2\<lparr>control_socket := CS_CLOSED,
                               callbacks := callbacks s2 @ [Cb_OnMessageSent 0]\<rparr>"
      have t: "state t \<noteq> NOT_CONNECTED" "state t \<noteq> SIGNING_OUT"
        "control_socket t = CS_CLOSED" "my_id t \<noteq> -1"
        using s2_fields by (simp_all add: t_def)
      from read [of True] busy that have "s3 = (snd (SignOut True t))\<lparr>control_data := []\<rparr>"
        by (simp add: s3_def s2_fields t_def)
      then show ?thesis
        unfolding SignOut_idle_with_id [OF t] by (simp add: t_def s2)
    qed
    have s4: "s4 = s\<lparr>hanging_get := CS_CLOSED, state := SIGNING_OUT,
                     onconnect_data := [],
                     control_socket := CS_CONNECTING,
                     callbacks := callbacks s @ [Cb_OnMessageSent 0],
                     control_data := [],
                     sent := sent s @ [(ControlSocket, sign_out_request (my_id s))]\<rparr>"
      if h
      by (simp add: s4_def s3 [OF that] OnConnect_def Socket_Send_def)
    have s4_fields: "state s4 = SIGNING_OUT" "my_id s4 \<noteq> -1"
      "callbacks s4 = callbacks s @ [Cb_OnMessageSent 0]"
      if h
      using busy by (simp_all add: s4 [OF that])
    have last: "length (filter (\<lambda>e. e = Cb_OnDisconnected) (callbacks (OnRead c n reply s4)))
            = length (filter (\<lambda>e. e = Cb_OnDisconnected) (callbacks s)) + 1"
      if h and "fst (ReadIntoBuffer n ControlSocket ControlData reply 0 s4)"
      using OnRead_signing_out [OF s4_fields(1) [OF that(1)] s4_fields(2) [OF that(1)] that(2),
          of c]
        s4_fields(3) [OF that(1)]
      by simp
    have "h \<longrightarrow> (let s2 = snd (SignOut b (snd (SignOut a s)));
             s3 = OnRead True n chunks s2;
             s4 = OnConnect ControlSocket s3
         in sent s2 = sent s \<and> callbacks s2 = callbacks s \<and> onconnect_data s2 = onconnect_data s
            \<and> state s3 = SIGNING_OUT
            \<and> control_socket s3 = CS_CONNECTING
            \<and> onconnect_data s3 = sign_out_request (my_id s)
            \<and> sent s3 = sent s
            \<and> callbacks s3 = callbacks s @ [Cb_OnMessageSent 0]
            \<and> sent s4 = sent s @ [(ControlSocket, sign_out_request (my_id s))]
            \<and> callbacks s4 = callbacks s @ [Cb_OnMessageSent 0]
            \<and> (fst (ReadIntoBuffer n ControlSocket ControlData reply 0 s4) \<longrightarrow>
                 length (filter (\<lambda>e. e = Cb_OnDisconnected) (callbacks (OnRead c n reply s4)))
                   = length (filter (\<lambda>e. e = Cb_OnDisconnected) (callbacks s)) + 1))"
    proof
      assume h
      have "sent s2 = sent s" "callbacks s2 = callbacks s" "onconnect_data s2 = onconnect_data s"
        "state s3 = SIGNING_OUT" "control_socket s3 = CS_CONNECTING"
        "onconnect_data s3 = sign_out_request (my_id s)" "sent s3 = sent s"
        "callbacks s3 = callbacks s @ [Cb_OnMessageSent 0]"
        "sent s4 = sent s @ [(ControlSocket, sign_out_request (my_id s))]"
        "callbacks s4 = callbacks s @ [Cb_OnMessageSent 0]"
        by (simp_all add: s2 s3 [OF \<open>h\<close>] s4 [OF \<open>h\<close>])
      with last [OF \<open>h\<close>] show "let s2 = snd (SignOut b (snd (SignOut a s)));
             s3 = OnRead True n chunks s2;
             s4 = OnConnect ControlSocket s3
         in sent s2 = sent s \<and> callbacks s2 = callbacks s \<and> onconnect_data s2 = onconnect_data s
            \<and> state s3 = SIGNING_OUT
            \<and> control_socket s3 = CS_CONNECTING
            \<and> onconnect_data s3 = sign_out_request (my_id s)
            \<and> sent s3 = sent s
            \<and> callbacks s3 = callbacks s @ [Cb_OnMessageSent 0]
            \<and> sent s4 = sent s @ [(ControlSocket, sign_out_request (my_id s))]
            \<and> callbacks s4 = callbacks s @ [Cb_OnMessageSent 0]
            \<and> (fst (ReadIntoBuffer n ControlSocket ControlData reply 0 s4) \<longrightarrow>
                 length (filter (\<lambda>e. e = Cb_OnDisconnected) (callbacks (OnRead c n reply s4)))
                   = length (filter (\<lambda>e. e = Cb_OnDisconnected) (callbacks s)) + 1)"
        unfolding s2_def [symmetric] s3_def [symmetric] s4_def [symmetric] Let_def by blast
    qed
    moreover have "\<not> h \<longrightarrow> OnRead c n chunks (snd (SignOut b (snd (SignOut a s))))
          = s\<lparr>hanging_get := CS_CLOSED, state := SIGNING_OUT_WAITING, control_data := []\<rparr>"
      using pending by (simp add: s2_def)
    ultimately have "(h \<longrightarrow> (let s2 = snd (SignOut b (snd (SignOut a s)));
             s3 = OnRead True n chunks s2;
             s4 = OnConnect ControlSocket s3
         in sent s2 = sent s \<and> callbacks s2 = callbacks s \<and> onconnect_data s2 = onconnect_data s
            \<and> state s3 = SIGNING_OUT
            \<and> control_socket s3 = CS_CONNECTING
            \<and> onconnect_data s3 = sign_out_request (my_id s)
            \<and> sent s3 = sent s
            \<and> callbacks s3 = callbacks s @ [Cb_OnMessageSent 0]
            \<and> sent s4 = sent s @ [(ControlSocket, sign_out_request (my_id s))]
            \<and> callbacks s4 = callbacks s @ [Cb_OnMessageSent 0]
            \<and> (fst (ReadIntoBuffer n ControlSocket ControlData reply 0 s4) \<longrightarrow>
                 length (filter (\<lambda>e. e = Cb_OnDisconnected) (callbacks (OnRead c n reply s4)))
                   = length (filter (\<lambda>e. e = Cb_OnDisconnected) (callbacks s)) + 1)))
      \<and> (\<not> h \<longrightarrow> OnRead c n chunks (snd (SignOut b (snd (SignOut a s))))
          = s\<lparr>hanging_get := CS_CLOSED, state := SIGNING_OUT_WAITING, control_data := []\<rparr>)"
      by blast
  }
  note pending = this
  show "let s2 = snd (SignOut b (snd (SignOut a s)));
             s3 = OnRead True n chunks s2;
             s4 = OnConnect ControlSocket s3
         in sent s2 = sent s \<and> callbacks s2 = callbacks s \<and> onconnect_data s2 = onconnect_data s
            \<and> state s3 = SIGNING_OUT
            \<and> control_socket s3 = CS_CONNECTING
            \<and> onconnect_data s3 = sign_out_request (my_id s)
            \<and> sent s3 = sent s
            \<and> callbacks s3 = callbacks s @ [Cb_OnMessageSent 0]
            \<and> sent s4 = sent s @ [(ControlSocket, sign_out_request (my_id s))]
            \<and> callbacks s4 = callbacks s @ [Cb_OnMessageSent 0]
            \<and> (fst (ReadIntoBuffer n ControlSocket ControlData reply 0 s4) \<longrightarrow>
                 length (filter (\<lambda>e. e = Cb_OnDisconnected) (callbacks (OnRead c n reply s4)))
                   = length (filter (\<lambda>e. e = Cb_OnDisconnected) (callbacks s)) + 1)"
    if "state s \<noteq> NOT_CONNECTED \<and> state s \<noteq> SIGNING_OUT \<and> control_socket s \<noteq> CS_CLOSED
        \<and> my_id s \<noteq> -1
        \<and> fst (ReadIntoBuffer n ControlSocket ControlData chunks 0 s)
        \<and> GetResponseStatus (c_str (Recv_loop chunks (control_data s))) = 200
        \<and> GetHeaderValue_string (Recv_loop chunks (control_data s))
             (the (str_find (Recv_loop chunks (control_data s)) (CRLF @ CRLF) 0)) kConnection
           = Some ''close''"
    using pending [of True] that by simp
  show "OnRead c n chunks (snd (SignOut b (snd (SignOut a s))))
          = s\<lparr>hanging_get := CS_CLOSED, state := SIGNING_OUT_WAITING, control_data := []\<rparr>"
    if "state s \<noteq> NOT_CONNECTED \<and> state s \<noteq> SIGNING_OUT \<and> control_socket s \<noteq> CS_CLOSED
        \<and> my_id s \<noteq> -1
        \<and> fst (ReadIntoBuffer n ControlSocket ControlData chunks 0 s)
        \<and> GetResponseStatus (c_str (Recv_loop chunks (control_data s))) = 200
        \<and> GetHeaderValue_string (Recv_loop chunks (control_data s))
             (the (str_find (Recv_loop chunks (control_data s)) (CRLF @ CRLF) 0)) kConnection
           \<noteq> Some ''close''"
    using pending [of False] that by simp
qed

theorem SignOut_idempotent_witness:
  "(state new_client = NOT_CONNECTED \<or> state new_client = SIGNING_OUT)
   \<and> (SignOut True new_client = (True, new_client))
   \<and> (state (new_client\<lparr>state := SIGNING_IN\<rparr>) \<noteq> NOT_CONNECTED
      \<and> state (new_client\<lparr>state := SIGNING_IN\<rparr>) \<noteq> SIGNING_OUT
      \<and> control_socket (new_client\<lparr>state := SIGNING_IN\<rparr>) = CS_CLOSED
      \<and> my_id (new_client\<lparr>state := SIGNING_IN\<rparr>) = -1)
   \<and> (SignOut True (new_client\<lparr>state := SIGNING_IN\<rparr>)
      = (True, (new_client\<lparr>state := SIGNING_IN\<rparr>)\<lparr>hanging_get := CS_CLOSED, state := SIGNING_OUT\<rparr>))
   \<and> (state signed_in_idle \<noteq> NOT_CONNECTED \<and> state signed_in_idle \<noteq> SIGNING_OUT
      \<and> control_socket signed_in_idle = CS_CLOSED \<and> my_id signed_in_idle \<noteq> -1)
   \<and> (control_socket (snd (SignOut True signed_in_idle)) = CS_CONNECTING)
   \<and> (sent (OnConnect ControlSocket (snd (SignOut True (snd (SignOut True signed_in_idle)))))
      = [(ControlSocket, ''GET /sign_out?peer_id=3 HTTP/1.0'' @ CRLF @ CRLF)])
   \<and> (fst (ReadIntoBuffer True ControlSocket ControlData [ok_reply] 0
          (OnConnect ControlSocket (snd (SignOut True (snd (SignOut True signed_in_idle)))))))
   \<and> (length (filter (\<lambda>e. e = Cb_OnDisconnected)
        (callbacks (OnRead True True [ok_reply]
          (OnConnect ControlSocket (snd (SignOut True (snd (SignOut True signed_in_idle))))))))
      = 1)
   \<and> (state signed_in_busy \<noteq> NOT_CONNECTED \<and> state signed_in_busy \<noteq> SIGNING_OUT
      \<and> control_socket signed_in_busy \<noteq> CS_CLOSED)
   \<and> (SignOut True signed_in_busy
      = (True, signed_in_busy\<lparr>hanging_get := CS_CLOSED, state := SIGNING_OUT_WAITING\<rparr>))
   \<and> (my_id signed_in_busy \<noteq> -1
      \<and> fst (ReadIntoBuffer True ControlSocket ControlData [ok_reply_close] 0 signed_in_busy)
      \<and> GetResponseStatus (c_str (Recv_loop [ok_reply_close] (control_data signed_in_busy))) = 200
      \<and> GetHeaderValue_string (Recv_loop [ok_reply_close] (control_data signed_in_busy))
            (the (str_find (Recv_loop [ok_reply_close] (control_data signed_in_busy)) (CRLF @ CRLF) 0))
            kConnection
          = Some ''close'')
   \<and> (sent (snd (SignOut True (snd (SignOut True signed_in_busy)))) = [])
   \<and> (control_socket
        (OnRead True True [ok_reply_close] (snd (SignOut True (snd (SignOut True signed_in_busy)))))
      = CS_CONNECTING)
   \<and> (sent (OnConnect ControlSocket
            (OnRead True True [ok_reply_close] (snd (SignOut True (snd (SignOut True signed_in_busy))))))
      = [(ControlSocket, ''GET /sign_out?peer_id=3 HTTP/1.0'' @ CRLF @ CRLF)])
   \<and> (fst (ReadIntoBuffer True ControlSocket ControlData [ok_reply] 0
          (OnConnect ControlSocket
            (OnRead True True [ok_reply_close] (snd (SignOut True (snd (SignOut True signed_in_busy))))))))
   \<and> (length (filter (\<lambda>e. e = Cb_OnDisconnected)
        (callbacks (OnRead True True [ok_reply]
          (OnConnect ControlSocket
            (OnRead True True [ok_reply_close] (snd (SignOut True (snd (SignOut True signed_in_busy)))))))))
      = 1)
   \<and> (my_id signed_in_busy \<noteq> -1
      \<and> fst (ReadIntoBuffer True ControlSocket ControlData [ok_reply] 0 signed_in_busy)
      \<and> GetResponseStatus (c_str (Recv_loop [ok_reply] (control_data signed_in_busy))) = 200
      \<and> GetHeaderValue_string (Recv_loop [ok_reply] (control_data signed_in_busy))
            (the (str_find (Recv_loop [ok_reply] (control_data signed_in_busy)) (CRLF @ CRLF) 0))
            kConnection
          \<noteq> Some ''close'')
   \<and> (OnRead True True [ok_reply] (snd (SignOut True (snd (SignOut True signed_in_busy))))
      = signed_in_busy\<lparr>hanging_get := CS_CLOSED, state := SIGNING_OUT_WAITING,
          control_data := []\<rparr>)"
proof -
  have hB:
    "state new_client = NOT_CONNECTED \<or> state new_client = SIGNING_OUT"
    by (simp add: prim_defs client_defs Let_def)
  have hD:
    "state (new_client\<lparr>state := SIGNING_IN\<rparr>) \<noteq> NOT_CONNECTED
      \<and> state (new_client\<lparr>state := SIGNING_IN\<rparr>) \<noteq> SIGNING_OUT
      \<and> control_socket (new_client\<lparr>state := SIGNING_IN\<rparr>) = CS_CLOSED
      \<and> my_id (new_client\<lparr>state := SIGNING_IN\<rparr>) = -1"
    by (simp add: prim_defs client_defs Let_def)
  have hC:
    "state signed_in_idle \<noteq> NOT_CONNECTED \<and> state signed_in_idle \<noteq> SIGNING_OUT
      \<and> control_socket signed_in_idle = CS_CLOSED \<and> my_id signed_in_idle \<noteq> -1"
    by (simp add: prim_defs client_defs Let_def)
  have hC2:
    "fst (ReadIntoBuffer True ControlSocket ControlData [ok_reply] 0
          (OnConnect ControlSocket (snd (SignOut True (snd (SignOut True signed_in_idle))))))"
    by (simp add: prim_defs client_defs Let_def)
  have hE:
    "state signed_in_busy \<noteq> NOT_CONNECTED \<and> state signed_in_busy \<noteq> SIGNING_OUT
      \<and> control_socket signed_in_busy \<noteq> CS_CLOSED"
    by (simp add: prim_defs client_defs Let_def)
  have hF:
    "my_id signed_in_busy \<noteq> -1
      \<and> fst (ReadIntoBuffer True ControlSocket ControlData [ok_reply_close] 0 signed_in_busy)
      \<and> GetResponseStatus (c_str (Recv_loop [ok_reply_close] (control_data signed_in_busy))) = 200
      \<and> GetHeaderValue_string (Recv_loop [ok_reply_close] (control_data signed_in_busy))
            (the (str_find (Recv_loop [ok_reply_close] (control_data signed_in_busy)) (CRLF @ CRLF) 0))
            kConnection
          = Some ''close''"
    by (simp add: prim_defs client_defs Let_def)
  have hF2:
    "fst (ReadIntoBuffer True ControlSocket ControlData [ok_reply] 0
          (OnConnect ControlSocket
            (OnRead True True [ok_reply_close] (snd (SignOut True (snd (SignOut True signed_in_busy)))))))"
    by (simp add: prim_defs client_defs Let_def)
  have hG:
    "my_id signed_in_busy \<noteq> -1
      \<and> fst (ReadIntoBuffer True ControlSocket ControlData [ok_reply] 0 signed_in_busy)
      \<and> GetResponseStatus (c_str (Recv_loop [ok_reply] (control_data signed_in_busy))) = 200
      \<and> GetHeaderValue_string (Recv_loop [ok_reply] (control_data signed_in_busy))
            (the (str_find (Recv_loop [ok_reply] (control_data signed_in_busy)) (CRLF @ CRLF) 0))
            kConnection
          \<noteq> Some ''close''"
    by (simp add: prim_defs client_defs Let_def)
  note t1 = SignOut_idempotent [of True True new_client]
  note t2 = SignOut_idempotent [of True True "new_client\<lparr>state := SIGNING_IN\<rparr>"]
  note t3 = SignOut_idempotent [of True True signed_in_idle True "[ok_reply]" True]
  note t4 = SignOut_idempotent [of True True signed_in_busy True "[ok_reply]" True "[ok_reply_close]"]
  note t5 = SignOut_idempotent [of True True signed_in_busy True "[ok_reply]" True "[ok_reply]"]
  from t1 hB have cB: "SignOut True new_client = (True, new_client)" by blast
  from t2 hD have cD:
    "SignOut True (new_client\<lparr>state := SIGNING_IN\<rparr>)
      = (True, (new_client\<lparr>state := SIGNING_IN\<rparr>)\<lparr>hanging_get := CS_CLOSED, state := SIGNING_OUT\<rparr>)"
    by blast
  from t3 hC have
    "SignOut True signed_in_idle
          = (True, signed_in_idle\<lparr>hanging_get := CS_CLOSED, state := SIGNING_OUT,
                      onconnect_data := sign_out_request (my_id signed_in_idle),
                      control_socket := CS_CONNECTING\<rparr>)"
    by blast
  then have cC0: "control_socket (snd (SignOut True signed_in_idle)) = CS_CONNECTING"
    by simp
  from t3 hC have
    "sent (OnConnect ControlSocket (snd (SignOut True (snd (SignOut True signed_in_idle)))))
          = sent signed_in_idle @ [(ControlSocket, sign_out_request (my_id signed_in_idle))]"
    unfolding Let_def by blast
  then have cC1:
    "sent (OnConnect ControlSocket (snd (SignOut True (snd (SignOut True signed_in_idle)))))
      = [(ControlSocket, ''GET /sign_out?peer_id=3 HTTP/1.0'' @ CRLF @ CRLF)]"
    by (simp add: sign_out_request_def snprintf1024_def show_int_def show_nat.simps
        digit_char_def new_client_def CRLF_def)
  from t3 hC hC2 have
    "length (filter (\<lambda>e. e = Cb_OnDisconnected)
        (callbacks (OnRead True True [ok_reply]
          (OnConnect ControlSocket (snd (SignOut True (snd (SignOut True signed_in_idle))))))))
          = length (filter (\<lambda>e. e = Cb_OnDisconnected) (callbacks signed_in_idle)) + 1"
    unfolding Let_def by blast
  then have cC2:
    "length (filter (\<lambda>e. e = Cb_OnDisconnected)
        (callbacks (OnRead True True [ok_reply]
          (OnConnect ControlSocket (snd (SignOut True (snd (SignOut True signed_in_idle))))))))
      = 1"
    by (simp add: new_client_def)
  from t4 hE have cE:
    "SignOut True signed_in_busy
      = (True, signed_in_busy\<lparr>hanging_get := CS_CLOSED, state := SIGNING_OUT_WAITING\<rparr>)"
    by blast
  from t4 hE hF have
    "sent (snd (SignOut True (snd (SignOut True signed_in_busy)))) = sent signed_in_busy"
    unfolding Let_def by blast
  then have cF1:
    "sent (snd (SignOut True (snd (SignOut True signed_in_busy)))) = []"
    by (simp add: new_client_def)
  from t4 hE hF have cF2:
    "control_socket
        (OnRead True True [ok_reply_close] (snd (SignOut True (snd (SignOut True signed_in_busy)))))
      = CS_CONNECTING"
    unfolding Let_def by blast
  from t4 hE hF have
    "sent (OnConnect ControlSocket
            (OnRead True True [ok_reply_close] (snd (SignOut True (snd (SignOut True signed_in_busy))))))
          = sent signed_in_busy @ [(ControlSocket, sign_out_request (my_id signed_in_busy))]"
    unfolding Let_def by blast
  then have cF3:
    "sent (OnConnect ControlSocket
            (OnRead True True [ok_reply_close] (snd (SignOut True (snd (SignOut True signed_in_busy))))))
      = [(ControlSocket, ''GET /sign_out?peer_id=3 HTTP/1.0'' @ CRLF @ CRLF)]"
    by (simp add: sign_out_request_def snprintf1024_def show_int_def show_nat.simps
        digit_char_def new_client_def CRLF_def)
  from t4 hE hF hF2 have
    "length (filter (\<lambda>e. e = Cb_OnDisconnected)
        (callbacks (OnRead True True [ok_reply]
          (OnConnect ControlSocket
            (OnRead True True [ok_reply_close] (snd (SignOut True (snd (SignOut True signed_in_busy)))))))))
          = length (filter (\<lambda>e. e = Cb_OnDisconnected) (callbacks signed_in_busy)) + 1"
    unfolding Let_def by blast
  then have cF4:
    "length (filter (\<lambda>e. e = Cb_OnDisconnected)
        (callbacks (OnRead True True [ok_reply]
          (OnConnect ControlSocket
            (OnRead True True [ok_reply_close] (snd (SignOut True (snd (SignOut True signed_in_busy)))))))))
      = 1"
    by (simp add: new_client_def)
  from t5 hE hG have cG:
    "OnRead True True [ok_reply] (snd (SignOut True (snd (SignOut True signed_in_busy))))
      = signed_in_busy\<lparr>hanging_get := CS_CLOSED, state := SIGNING_OUT_WAITING,
          control_data := []\<rparr>"
    by blast
  from hB cB hD cD hC cC0 cC1 hC2 cC2 hE
    cE hF cF1 cF2 cF3 hF2 cF4 hG cG
  show ?thesis by blast
qed

section \<open>The framer\<close>

text \<open>
  Claim C8, as the specification states it, fails. \<^verbatim>\<open>ReadIntoBuffer\<close> reads the content
  length with \<^verbatim>\<open>atoi\<close> from what follows the first occurrence of the bytes
  \<^verbatim>\<open>\r\nContent-Length: \<close>, spelled exactly so, and adds in \<^verbatim>\<open>size_t\<close>. A response
  whose header reads \<^verbatim>\<open>Content-Length: abc\<close> is reported complete, with content length 0,
  although it has no parseable \<^verbatim>\<open>Content-Length\<close> header. A response whose header is
  spelled \<^verbatim>\<open>content-length: 5\<close> and which is followed by its five body bytes is reported
  incomplete, although the header terminator stands at index 34 and the buffer has
  \<open>34 + 4 + 5\<close> bytes. For \<^verbatim>\<open>Content-Length: -1\<close> the content length is \<open>2 ^ 64 - 1\<close>
  and the response is reported complete, although the sum of the numbers exceeds the length
  of the buffer.
\<close>

theorem framer_unparseable_length_counterexample:
  "fst (ReadIntoBuffer True ControlSocket ControlData
          [''HTTP/1.0 200 OK'' @ CRLF @ ''Content-Length: abc'' @ CRLF @ CRLF] 0 new_client)
   \<and> fst (snd (ReadIntoBuffer True ControlSocket ControlData
          [''HTTP/1.0 200 OK'' @ CRLF @ ''Content-Length: abc'' @ CRLF @ CRLF] 0 new_client)) = 0
   \<and> \<not> fst (ReadIntoBuffer True ControlSocket ControlData
          [''HTTP/1.0 200 OK'' @ CRLF @ ''content-length: 5'' @ CRLF @ CRLF @ ''hello''] 0
          new_client)
   \<and> length (''HTTP/1.0 200 OK'' @ CRLF @ ''content-length: 5'' @ CRLF @ CRLF @ ''hello'')
       = 34 + 4 + 5
   \<and> fst (ReadIntoBuffer True ControlSocket ControlData
          [''HTTP/1.0 200 OK'' @ CRLF @ ''Content-Length: -1'' @ CRLF @ CRLF] 0 new_client)
   \<and> fst (snd (ReadIntoBuffer True ControlSocket ControlData
          [''HTTP/1.0 200 OK'' @ CRLF @ ''Content-Length: -1'' @ CRLF @ CRLF] 0 new_client))
       = 2 ^ 64 - 1"
  by (simp add: prim_defs client_defs Let_def)

text \<open>
  Claim C8, as amended. Let the buffer be what was buffered followed by what this read
  event received. \<^verbatim>\<open>ReadIntoBuffer\<close> reports a complete response exactly when the
  bytes \<^verbatim>\<open>\r\n\r\n\<close> occur in the buffer, first at index \<open>i\<close>; the bytes
  \<^verbatim>\<open>\r\nContent-Length: \<close> occur in the buffer, first at an index below \<open>i\<close>; and
  \<open>(i + 4 + content_length) mod 2 ^ 64 \<le> length\<close>. In every other case it reports
  incomplete. Here \<open>content_length\<close> is the \<^verbatim>\<open>size_t\<close> that \<^verbatim>\<open>atoi\<close> yields on what
  follows that header name: white space is skipped, an optional sign is read, and the
  decimal digits that follow denote a number \<open>n\<close>, which is 0 when no digit stands
  there; for \<open>n < 2 ^ 31\<close> the content length is \<open>n\<close>, and \<open>2 ^ 64 - n\<close> for a negative
  number other than 0. \<^verbatim>\<open>ReadIntoBuffer\<close> never drops a byte: the buffer afterwards is
  the old buffer followed by the received chunks, and a handler that is told incomplete
  keeps that buffer.
\<close>

theorem framer_reports_complete:
  "(fst (ReadIntoBuffer starts socket data chunks cl0 s) \<longleftrightarrow>
      (\<exists>i f. first_occurrence (CRLF @ CRLF)
                (get_buffer data s @ concat (takeWhile (\<lambda>c. c \<noteq> []) chunks)) i
         \<and> first_occurrence kContentLength
                (get_buffer data s @ concat (takeWhile (\<lambda>c. c \<noteq> []) chunks)) f
         \<and> f < i
         \<and> (i + 4
              + size_t_of_int
                  (atoi (drop (f + length kContentLength)
                           (get_buffer data s @ concat (takeWhile (\<lambda>c. c \<noteq> []) chunks)))))
             mod 2 ^ 64
            \<le> length (get_buffer data s @ concat (takeWhile (\<lambda>c. c \<noteq> []) chunks))))
   \<and> (spec_number t < 2 ^ 31 \<longrightarrow> size_t_of_int (atoi t) = spec_content_length t)
   \<and> get_buffer data (snd (snd (ReadIntoBuffer starts socket data chunks cl0 s)))
       = get_buffer data s @ concat (takeWhile (\<lambda>c. c \<noteq> []) chunks)
   \<and> (\<not> fst (ReadIntoBuffer starts ControlSocket ControlData chunks 0 s)
        \<longrightarrow> OnRead starts' starts chunks s
              = s\<lparr>control_data :=
                    control_data s @ concat (takeWhile (\<lambda>c. c \<noteq> []) chunks)\<rparr>)
   \<and> (\<not> fst (ReadIntoBuffer starts HangingGet NotificationData chunks 0 s)
        \<longrightarrow> notification_data (OnHangingGetRead starts starts' chunks s)
              = notification_data s @ concat (takeWhile (\<lambda>c. c \<noteq> []) chunks))"
proof (intro conjI impI)
  define d where "d = get_buffer data s @ concat (takeWhile (\<lambda>c. c \<noteq> []) chunks)"
  have d: "Recv_loop chunks (get_buffer data s) = d"
    by (simp add: d_def Recv_loop_append)
  have t: "CRLF @ CRLF \<noteq> []" and h: "kContentLength \<noteq> []"
    by (simp_all add: CRLF_def kContentLength_def)
  show "fst (ReadIntoBuffer starts socket data chunks cl0 s) \<longleftrightarrow>
      (\<exists>i f. first_occurrence (CRLF @ CRLF) d i
         \<and> first_occurrence kContentLength d f
         \<and> f < i
         \<and> (i + 4 + size_t_of_int (atoi (drop (f + length kContentLength) d))) mod 2 ^ 64
            \<le> length d)"
    unfolding ReadIntoBuffer_ret d str_find_first_occurrence [OF t]
      str_find_first_occurrence [OF h] size_t_add_def ..
  show "size_t_of_int (atoi t) = spec_content_length t" if "spec_number t < 2 ^ 31"
    using that by (rule atoi_spec_content_length)
  show "get_buffer data (snd (snd (ReadIntoBuffer starts socket data chunks cl0 s))) = d"
    by (simp add: ReadIntoBuffer_buffer d)
  show "OnRead starts' starts chunks s
          = s\<lparr>control_data := control_data s @ concat (takeWhile (\<lambda>c. c \<noteq> []) chunks)\<rparr>"
    if "\<not> fst (ReadIntoBuffer starts ControlSocket ControlData chunks 0 s)"
    using OnRead_incomplete [OF that] by (simp add: Recv_loop_append)
  show "notification_data (OnHangingGetRead starts starts' chunks s)
          = notification_data s @ concat (takeWhile (\<lambda>c. c \<noteq> []) chunks)"
    if "\<not> fst (ReadIntoBuffer starts HangingGet NotificationData chunks 0 s)"
    using OnHangingGetRead_incomplete [OF that]
    by (simp add: Recv_loop_append Socket_Connect_def)
qed

theorem framer_reports_complete_witness:
  "first_occurrence (CRLF @ CRLF)
      (''HTTP/1.0 200 OK'' @ CRLF @ ''Content-Length: 3'' @ CRLF @ CRLF @ ''BYE'') 34
   \<and> first_occurrence kContentLength
      (''HTTP/1.0 200 OK'' @ CRLF @ ''Content-Length: 3'' @ CRLF @ CRLF @ ''BYE'') 15
   \<and> (15 :: nat) < 34
   \<and> (34 + 4
        + size_t_of_int
            (atoi (drop (15 + length kContentLength)
               (''HTTP/1.0 200 OK'' @ CRLF @ ''Content-Length: 3'' @ CRLF @ CRLF @ ''BYE''))))
       mod 2 ^ 64
      \<le> length (''HTTP/1.0 200 OK'' @ CRLF @ ''Content-Length: 3'' @ CRLF @ CRLF @ ''BYE'')
   \<and> fst (ReadIntoBuffer True ControlSocket ControlData
            [''HTTP/1.0 200 OK'' @ CRLF, ''Content-Length: 3'' @ CRLF @ CRLF @ ''BYE''] 0
            new_client)
   \<and> spec_number (''3'' @ CRLF @ CRLF @ ''BYE'') < 2 ^ 31
   \<and> size_t_of_int (atoi (''3'' @ CRLF @ CRLF @ ''BYE'')) = 3
   \<and> spec_number ''abc'' < 2 ^ 31
   \<and> size_t_of_int (atoi ''abc'') = 0
   \<and> spec_number '' -17'' < 2 ^ 31
   \<and> size_t_of_int (atoi '' -17'') = 2 ^ 64 - 17
   \<and> \<not> fst (ReadIntoBuffer True ControlSocket ControlData
              [''HTTP/1.0 200 OK'' @ CRLF, ''Content-Length: 3'' @ CRLF @ CRLF @ ''BY''] 0
              (new_client\<lparr>state := SIGNING_IN\<rparr>))
   \<and> OnRead True True
        [''HTTP/1.0 200 OK'' @ CRLF, ''Content-Length: 3'' @ CRLF @ CRLF @ ''BY'']
        (new_client\<lparr>state := SIGNING_IN\<rparr>)
      = new_client\<lparr>state := SIGNING_IN,
          control_data :=
            ''HTTP/1.0 200 OK'' @ CRLF @ ''Content-Length: 3'' @ CRLF @ CRLF @ ''BY''\<rparr>
   \<and> \<not> fst (ReadIntoBuffer True HangingGet NotificationData
              [''HTTP/1.0 200 OK'' @ CRLF, ''Content-Length: 3'' @ CRLF @ CRLF @ ''BY''] 0
              (new_client\<lparr>state := SIGNING_IN\<rparr>))
   \<and> notification_data (OnHangingGetRead True True
        [''HTTP/1.0 200 OK'' @ CRLF, ''Content-Length: 3'' @ CRLF @ CRLF @ ''BY'']
        (new_client\<lparr>state := SIGNING_IN\<rparr>))
      = ''HTTP/1.0 200 OK'' @ CRLF @ ''Content-Length: 3'' @ CRLF @ CRLF @ ''BY''"
proof -
  have g1: "first_occurrence (CRLF @ CRLF)
      (''HTTP/1.0 200 OK'' @ CRLF @ ''Content-Length: 3'' @ CRLF @ CRLF @ ''BYE'') 34"
    by code_simp
  have g2: "first_occurrence kContentLength
      (''HTTP/1.0 200 OK'' @ CRLF @ ''Content-Length: 3'' @ CRLF @ CRLF @ ''BYE'') 15"
    by code_simp
  have g3: "(15 :: nat) < 34" by simp
  have g4: "(34 + 4
        + size_t_of_int
            (atoi (drop (15 + length kContentLength)
               (''HTTP/1.0 200 OK'' @ CRLF @ ''Content-Length: 3'' @ CRLF @ CRLF @ ''BYE''))))
       mod 2 ^ 64
      \<le> length (''HTTP/1.0 200 OK'' @ CRLF @ ''Content-Length: 3'' @ CRLF @ CRLF @ ''BYE'')"
    by (simp add: prim_defs kContentLength_def Let_def)
  have h1: "spec_number (''3'' @ CRLF @ CRLF @ ''BYE'') < 2 ^ 31"
    by (simp add: spec_number_def isspace_def isdigit_def CRLF_def CR_def LF_def)
  have h2: "spec_number ''abc'' < 2 ^ 31"
    by (simp add: spec_number_def isspace_def isdigit_def)
  have h2a: "spec_number '' -17'' < 2 ^ 31"
    by (simp add: spec_number_def isspace_def isdigit_def)
  have h3: "\<not> fst (ReadIntoBuffer True ControlSocket ControlData
              [''HTTP/1.0 200 OK'' @ CRLF, ''Content-Length: 3'' @ CRLF @ CRLF @ ''BY''] 0
              (new_client\<lparr>state := SIGNING_IN\<rparr>))"
    by (simp add: prim_defs client_defs Let_def)
  have h4: "\<not> fst (ReadIntoBuffer True HangingGet NotificationData
              [''HTTP/1.0 200 OK'' @ CRLF, ''Content-Length: 3'' @ CRLF @ CRLF @ ''BY''] 0
              (new_client\<lparr>state := SIGNING_IN\<rparr>))"
    by (simp add: prim_defs client_defs Let_def)
  note t = framer_reports_complete
      [of True ControlSocket ControlData
        "[''HTTP/1.0 200 OK'' @ CRLF, ''Content-Length: 3'' @ CRLF @ CRLF @ ''BY'']" 0
        "new_client\<lparr>state := SIGNING_IN\<rparr>" "''3'' @ CRLF @ CRLF @ ''BYE''" True]
  note u = framer_reports_complete
      [of True ControlSocket ControlData
        "[''HTTP/1.0 200 OK'' @ CRLF, ''Content-Length: 3'' @ CRLF @ CRLF @ ''BYE'']" 0
        new_client "''abc''" True]
  have b: "get_buffer ControlData new_client
             @ concat (takeWhile (\<lambda>c. c \<noteq> [])
                 [''HTTP/1.0 200 OK'' @ CRLF, ''Content-Length: 3'' @ CRLF @ CRLF @ ''BYE''])
           = ''HTTP/1.0 200 OK'' @ CRLF @ ''Content-Length: 3'' @ CRLF @ CRLF @ ''BYE''"
    by (simp add: get_buffer_def new_client_def CRLF_def)
  from u g1 g2 g3 g4 have c0: "fst (ReadIntoBuffer True ControlSocket ControlData
            [''HTTP/1.0 200 OK'' @ CRLF, ''Content-Length: 3'' @ CRLF @ CRLF @ ''BYE''] 0
            new_client)"
    unfolding b by blast
  note v = framer_reports_complete
      [of True ControlSocket ControlData
        "[''HTTP/1.0 200 OK'' @ CRLF, ''Content-Length: 3'' @ CRLF @ CRLF @ ''BYE'']" 0
        new_client "'' -17''" True]
  from t h1 have "size_t_of_int (atoi (''3'' @ CRLF @ CRLF @ ''BYE''))
                    = spec_content_length (''3'' @ CRLF @ CRLF @ ''BYE'')"
    by blast
  then have c1: "size_t_of_int (atoi (''3'' @ CRLF @ CRLF @ ''BYE'')) = 3"
    by (simp add: spec_content_length_def spec_number_def spec_negative_def isspace_def
        isdigit_def CRLF_def CR_def LF_def)
  from u h2 have "size_t_of_int (atoi ''abc'') = spec_content_length ''abc''"
    by blast
  then have c2: "size_t_of_int (atoi ''abc'') = 0"
    by (simp add: spec_content_length_def spec_number_def spec_negative_def isspace_def
        isdigit_def)
  from v h2a have "size_t_of_int (atoi '' -17'') = spec_content_length '' -17''"
    by blast
  then have c2a: "size_t_of_int (atoi '' -17'') = 2 ^ 64 - 17"
    by (simp add: spec_content_length_def spec_number_def spec_negative_def isspace_def
        isdigit_def)
  from t h3 have c3: "OnRead True True
        [''HTTP/1.0 200 OK'' @ CRLF, ''Content-Length: 3'' @ CRLF @ CRLF @ ''BY'']
        (new_client\<lparr>state := SIGNING_IN\<rparr>)
      = new_client\<lparr>state := SIGNING_IN,
          control_data :=
            ''HTTP/1.0 200 OK'' @ CRLF @ ''Content-Length: 3'' @ CRLF @ CRLF @ ''BY''\<rparr>"
    by (simp add: new_client_def CRLF_def)
  from t h4 have c4: "notification_data (OnHangingGetRead True True
        [''HTTP/1.0 200 OK'' @ CRLF, ''Content-Length: 3'' @ CRLF @ CRLF @ ''BY'']
        (new_client\<lparr>state := SIGNING_IN\<rparr>))
      = ''HTTP/1.0 200 OK'' @ CRLF @ ''Content-Length: 3'' @ CRLF @ CRLF @ ''BY''"
    by (simp add: new_client_def CRLF_def)
  from g1 g2 g3 g4 c0 h1 c1 h2 c2 h2a c2a h3 c3 h4 c4 show ?thesis by blast
qed


text \<open>
  Claim C9. Delivering a byte sequence \<open>r\<close> in two parts, split at any index \<open>k\<close>,
  leaves \<^verbatim>\<open>ReadIntoBuffer\<close> with the same buffer, the same verdict and the same content
  length as delivering it whole; the parsed headers and the body are functions of that
  buffer. For the two read handlers, which clear the buffer after a complete response: when
  the first part does not complete a response (and, for the hanging get, no reconnection
  is due), the client after the two read events is the client after the single one; and
  that is so for every split of a single response read into an empty buffer, none of
  whose proper prefixes is complete.
\<close>

theorem split_delivery:
  "(let s1 = snd (snd (ReadIntoBuffer a socket data [take k r] 0 s));
        two = ReadIntoBuffer b socket data [drop k r] 0 s1;
        one = ReadIntoBuffer b socket data [r] 0 s
    in get_buffer data (snd (snd two)) = get_buffer data s @ r
       \<and> get_buffer data (snd (snd one)) = get_buffer data s @ r
       \<and> fst two = fst one
       \<and> fst (snd two) = fst (snd one))
   \<and> (\<not> fst (ReadIntoBuffer b ControlSocket ControlData [take k r] 0 s)
        \<longrightarrow> OnRead a b [drop k r] (OnRead a' b' [take k r] s) = OnRead a b [r] s)
   \<and> (\<not> fst (ReadIntoBuffer a HangingGet NotificationData [take k r] 0 s)
        \<and> (hanging_get s \<noteq> CS_CLOSED \<or> state s \<noteq> CONNECTED)
        \<longrightarrow> OnHangingGetRead a b [drop k r] (OnHangingGetRead a' b' [take k r] s)
              = OnHangingGetRead a b [r] s)
   \<and> (one_response r \<and> control_data s = []
        \<longrightarrow> OnRead a b [drop k r] (OnRead a b [take k r] s) = OnRead a b [r] s)
   \<and> (one_response r \<and> notification_data s = []
        \<and> (hanging_get s \<noteq> CS_CLOSED \<or> state s \<noteq> CONNECTED)
        \<longrightarrow> OnHangingGetRead a b [drop k r] (OnHangingGetRead a b [take k r] s)
              = OnHangingGetRead a b [r] s)"
proof (intro conjI impI)
  show "let s1 = snd (snd (ReadIntoBuffer a socket data [take k r] 0 s));
        two = ReadIntoBuffer b socket data [drop k r] 0 s1;
        one = ReadIntoBuffer b socket data [r] 0 s
    in get_buffer data (snd (snd two)) = get_buffer data s @ r
       \<and> get_buffer data (snd (snd one)) = get_buffer data s @ r
       \<and> fst two = fst one
       \<and> fst (snd two) = fst (snd one)"
    by (rule split_framer)
  show "OnRead a b [drop k r] (OnRead a' b' [take k r] s) = OnRead a b [r] s"
    if "\<not> fst (ReadIntoBuffer b ControlSocket ControlData [take k r] 0 s)"
    using that by (rule OnRead_split_incomplete)
  show "OnHangingGetRead a b [drop k r] (OnHangingGetRead a' b' [take k r] s)
          = OnHangingGetRead a b [r] s"
    if "\<not> fst (ReadIntoBuffer a HangingGet NotificationData [take k r] 0 s)
        \<and> (hanging_get s \<noteq> CS_CLOSED \<or> state s \<noteq> CONNECTED)"
    using that by (intro OnHangingGetRead_split_incomplete) simp_all
  show "OnRead a b [drop k r] (OnRead a b [take k r] s) = OnRead a b [r] s"
    if "one_response r \<and> control_data s = []"
    using that by (intro OnRead_split_one_response) simp_all
  show "OnHangingGetRead a b [drop k r] (OnHangingGetRead a b [take k r] s)
          = OnHangingGetRead a b [r] s"
    if "one_response r \<and> notification_data s = []
        \<and> (hanging_get s \<noteq> CS_CLOSED \<or> state s \<noteq> CONNECTED)"
    using that by (intro OnHangingGetRead_split_one_response) simp_all
qed

theorem split_delivery_witness:
  "\<not> fst (ReadIntoBuffer True ControlSocket ControlData [take 30 sign_in_example] 0
            (new_client\<lparr>state := SIGNING_IN, control_socket := CS_CONNECTED\<rparr>))
   \<and> one_response sign_in_example
   \<and> control_data (new_client\<lparr>state := SIGNING_IN, control_socket := CS_CONNECTED\<rparr>) = []
   \<and> OnRead True True [drop 30 sign_in_example]
        (OnRead True True [take 30 sign_in_example]
           (new_client\<lparr>state := SIGNING_IN, control_socket := CS_CONNECTED\<rparr>))
      = OnRead True True [sign_in_example]
          (new_client\<lparr>state := SIGNING_IN, control_socket := CS_CONNECTED\<rparr>)
   \<and> \<not> fst (ReadIntoBuffer True HangingGet NotificationData [take 40 offer_example] 0
            (new_client\<lparr>state := CONNECTED, my_id := 3, hanging_get := CS_CONNECTED\<rparr>))
   \<and> one_response offer_example
   \<and> notification_data
        (new_client\<lparr>state := CONNECTED, my_id := 3, hanging_get := CS_CONNECTED\<rparr>) = []
   \<and> hanging_get (new_client\<lparr>state := CONNECTED, my_id := 3, hanging_get := CS_CONNECTED\<rparr>)
       \<noteq> CS_CLOSED
   \<and> OnHangingGetRead True True [drop 40 offer_example]
        (OnHangingGetRead True True [take 40 offer_example]
           (new_client\<lparr>state := CONNECTED, my_id := 3, hanging_get := CS_CONNECTED\<rparr>))
      = OnHangingGetRead True True [offer_example]
          (new_client\<lparr>state := CONNECTED, my_id := 3, hanging_get := CS_CONNECTED\<rparr>)"
proof -
  have h1: "\<not> fst (ReadIntoBuffer True ControlSocket ControlData [take 30 sign_in_example] 0
            (new_client\<lparr>state := SIGNING_IN, control_socket := CS_CONNECTED\<rparr>))"
    by (simp add: sign_in_example_def prim_defs client_defs Let_def)
  have h2: "\<not> fst (ReadIntoBuffer True HangingGet NotificationData [take 40 offer_example] 0
            (new_client\<lparr>state := CONNECTED, my_id := 3, hanging_get := CS_CONNECTED\<rparr>))"
    by (simp add: offer_example_def prim_defs client_defs Let_def)
  have h3: "hanging_get (new_client\<lparr>state := CONNECTED, my_id := 3, hanging_get := CS_CONNECTED\<rparr>)
       \<noteq> CS_CLOSED"
    by simp
  have h4: "one_response sign_in_example"
    by (simp add: one_response_def sign_in_example_def prim_defs kContentLength_def)
  have h5: "one_response offer_example"
    by (simp add: one_response_def offer_example_def prim_defs kContentLength_def)
  have h6: "control_data (new_client\<lparr>state := SIGNING_IN, control_socket := CS_CONNECTED\<rparr>) = []"
    "notification_data
        (new_client\<lparr>state := CONNECTED, my_id := 3, hanging_get := CS_CONNECTED\<rparr>) = []"
    by (simp_all add: new_client_def)
  note t1 = split_delivery
      [of True ControlSocket ControlData 30 sign_in_example
        "new_client\<lparr>state := SIGNING_IN, control_socket := CS_CONNECTED\<rparr>" True True True]
  note t2 = split_delivery
      [of True HangingGet NotificationData 40 offer_example
        "new_client\<lparr>state := CONNECTED, my_id := 3, hanging_get := CS_CONNECTED\<rparr>"
        True True True]
  from t1 h1 h2 h3 h4 h5 h6 t2 show ?thesis by blast
qed

section \<open>Responses with another status than 200\<close>

text \<open>
  Claim C6. When a read event completes a response whose status is not 200, on the
  control socket or on the hanging get and in whatever state, the client ends up with
  both sockets closed and in state \<^verbatim>\<open>NOT_CONNECTED\<close>; it calls \<^verbatim>\<open>OnDisconnected\<close>
  exactly once (on the control socket after the \<^verbatim>\<open>OnMessageSent(0)\<close> that a
  \<^verbatim>\<open>Connection: close\<close> header brings), posts no task and sends nothing; the response is
  not processed further: the directory is empty, the self id unset and the receive buffer
  cleared.
\<close>

theorem non_200_response:
  "(fst (ReadIntoBuffer b ControlSocket ControlData chunks 0 s)
      \<and> GetResponseStatus (c_str (Recv_loop chunks (control_data s))) \<noteq> 200
    \<longrightarrow> (let s' = OnRead a b chunks s
         in control_socket s' = CS_CLOSED \<and> hanging_get s' = CS_CLOSED
            \<and> state s' = NOT_CONNECTED
            \<and> callbacks s'
                = callbacks s
                  @ (if GetHeaderValue_string (Recv_loop chunks (control_data s))
                          (the (str_find (Recv_loop chunks (control_data s)) (CRLF @ CRLF) 0))
                          kConnection = Some ''close''
                     then [Cb_OnMessageSent 0] else [])
                  @ [Cb_OnDisconnected]
            \<and> delayed_tasks s' = delayed_tasks s \<and> sent s' = sent s
            \<and> peers s' = Map.empty \<and> my_id s' = -1 \<and> control_data s' = []))
   \<and> (fst (ReadIntoBuffer a HangingGet NotificationData chunks 0 s)
      \<and> GetResponseStatus (c_str (Recv_loop chunks (notification_data s))) \<noteq> 200
    \<longrightarrow> (let s' = OnHangingGetRead a b chunks s
         in control_socket s' = CS_CLOSED \<and> hanging_get s' = CS_CLOSED
            \<and> state s' = NOT_CONNECTED
            \<and> callbacks s' = callbacks s @ [Cb_OnDisconnected]
            \<and> delayed_tasks s' = delayed_tasks s \<and> sent s' = sent s
            \<and> peers s' = Map.empty \<and> my_id s' = -1 \<and> notification_data s' = []))"
proof (intro conjI impI)
  assume "fst (ReadIntoBuffer b ControlSocket ControlData chunks 0 s)
      \<and> GetResponseStatus (c_str (Recv_loop chunks (control_data s))) \<noteq> 200"
  then have "OnRead a b chunks s
           = (Close s)\<lparr>control_data := [],
                callbacks := callbacks s
                  @ (if GetHeaderValue_string (Recv_loop chunks (control_data s))
                          (the (str_find (Recv_loop chunks (control_data s)) (CRLF @ CRLF) 0))
                          kConnection = Some ''close''
                     then [Cb_OnMessageSent 0] else [])
                  @ [Cb_OnDisconnected]\<rparr>"
    by (simp add: OnRead_not_200)
  then show "let s' = OnRead a b chunks s
         in control_socket s' = CS_CLOSED \<and> hanging_get s' = CS_CLOSED
            \<and> state s' = NOT_CONNECTED
            \<and> callbacks s'
                = callbacks s
                  @ (if GetHeaderValue_string (Recv_loop chunks (control_data s))
                          (the (str_find (Recv_loop chunks (control_data s)) (CRLF @ CRLF) 0))
                          kConnection = Some ''close''
                     then [Cb_OnMessageSent 0] else [])
                  @ [Cb_OnDisconnected]
            \<and> delayed_tasks s' = delayed_tasks s \<and> sent s' = sent s
            \<and> peers s' = Map.empty \<and> my_id s' = -1 \<and> control_data s' = []"
    by (simp add: Let_def Close_def Socket_Close_def)
next
  assume "fst (ReadIntoBuffer a HangingGet NotificationData chunks 0 s)
      \<and> GetResponseStatus (c_str (Recv_loop chunks (notification_data s))) \<noteq> 200"
  then have "OnHangingGetRead a b chunks s
           = (Close s)\<lparr>notification_data := [],
                callbacks := callbacks s @ [Cb_OnDisconnected]\<rparr>"
    by (simp add: OnHangingGetRead_not_200)
  then show "let s' = OnHangingGetRead a b chunks s
         in control_socket s' = CS_CLOSED \<and> hanging_get s' = CS_CLOSED
            \<and> state s' = NOT_CONNECTED
            \<and> callbacks s' = callbacks s @ [Cb_OnDisconnected]
            \<and> delayed_tasks s' = delayed_tasks s \<and> sent s' = sent s
            \<and> peers s' = Map.empty \<and> my_id s' = -1 \<and> notification_data s' = []"
    by (simp add: Let_def Close_def Socket_Close_def)
qed

theorem non_200_response_witness:
  "fst (ReadIntoBuffer True ControlSocket ControlData
          [''HTTP/1.0 500 Internal Server Error'' @ CRLF @ ''Content-Length: 0'' @ CRLF @ CRLF] 0
          (new_client\<lparr>state := CONNECTED, my_id := 3, control_socket := CS_CONNECTED,
                       hanging_get := CS_CONNECTED, peers := [7 \<mapsto> ''alice'']\<rparr>))
   \<and> GetResponseStatus (c_str (Recv_loop
          [''HTTP/1.0 500 Internal Server Error'' @ CRLF @ ''Content-Length: 0'' @ CRLF @ CRLF]
          (control_data (new_client\<lparr>state := CONNECTED, my_id := 3,
                       control_socket := CS_CONNECTED,
                       hanging_get := CS_CONNECTED, peers := [7 \<mapsto> ''alice'']\<rparr>)))) = 500
   \<and> callbacks (OnRead True True
          [''HTTP/1.0 500 Internal Server Error'' @ CRLF @ ''Content-Length: 0'' @ CRLF @ CRLF]
          (new_client\<lparr>state := CONNECTED, my_id := 3, control_socket := CS_CONNECTED,
                       hanging_get := CS_CONNECTED, peers := [7 \<mapsto> ''alice'']\<rparr>))
       = [Cb_OnDisconnected]
   \<and> hanging_get (OnRead True True
          [''HTTP/1.0 500 Internal Server Error'' @ CRLF @ ''Content-Length: 0'' @ CRLF @ CRLF]
          (new_client\<lparr>state := CONNECTED, my_id := 3, control_socket := CS_CONNECTED,
                       hanging_get := CS_CONNECTED, peers := [7 \<mapsto> ''alice'']\<rparr>))
       = CS_CLOSED
   \<and> fst (ReadIntoBuffer True HangingGet NotificationData
          [''HTTP/1.0 404 Not Found'' @ CRLF @ ''Connection: close'' @ CRLF
           @ ''Content-Length: 0'' @ CRLF @ CRLF] 0
          (new_client\<lparr>state := CONNECTED, my_id := 3, hanging_get := CS_CONNECTED\<rparr>))
   \<and> GetResponseStatus (c_str (Recv_loop
          [''HTTP/1.0 404 Not Found'' @ CRLF @ ''Connection: close'' @ CRLF
           @ ''Content-Length: 0'' @ CRLF @ CRLF]
          (notification_data
             (new_client\<lparr>state := CONNECTED, my_id := 3, hanging_get := CS_CONNECTED\<rparr>))))
       = 404
   \<and> callbacks (OnHangingGetRead True True
          [''HTTP/1.0 404 Not Found'' @ CRLF @ ''Connection: close'' @ CRLF
           @ ''Content-Length: 0'' @ CRLF @ CRLF]
          (new_client\<lparr>state := CONNECTED, my_id := 3, hanging_get := CS_CONNECTED\<rparr>))
       = [Cb_OnDisconnected]
   \<and> hanging_get (OnHangingGetRead True True
          [''HTTP/1.0 404 Not Found'' @ CRLF @ ''Connection: close'' @ CRLF
           @ ''Content-Length: 0'' @ CRLF @ CRLF]
          (new_client\<lparr>state := CONNECTED, my_id := 3, hanging_get := CS_CONNECTED\<rparr>))
       = CS_CLOSED"
proof -
  have h1: "fst (ReadIntoBuffer True ControlSocket ControlData
          [''HTTP/1.0 500 Internal Server Error'' @ CRLF @ ''Content-Length: 0'' @ CRLF @ CRLF] 0
          (new_client\<lparr>state := CONNECTED, my_id := 3, control_socket := CS_CONNECTED,
                       hanging_get := CS_CONNECTED, peers := [7 \<mapsto> ''alice'']\<rparr>))"
    by (simp add: prim_defs client_defs Let_def)
  have h2: "GetResponseStatus (c_str (Recv_loop
          [''HTTP/1.0 500 Internal Server Error'' @ CRLF @ ''Content-Length: 0'' @ CRLF @ CRLF]
          (control_data (new_client\<lparr>state := CONNECTED, my_id := 3,
                       control_socket := CS_CONNECTED,
                       hanging_get := CS_CONNECTED, peers := [7 \<mapsto> ''alice'']\<rparr>)))) = 500"
    by (simp add: prim_defs client_defs Let_def)
  have h3: "fst (ReadIntoBuffer True HangingGet NotificationData
          [''HTTP/1.0 404 Not Found'' @ CRLF @ ''Connection: close'' @ CRLF
           @ ''Content-Length: 0'' @ CRLF @ CRLF] 0
          (new_client\<lparr>state := CONNECTED, my_id := 3, hanging_get := CS_CONNECTED\<rparr>))"
    by (simp add: prim_defs client_defs Let_def)
  have h4: "GetResponseStatus (c_str (Recv_loop
          [''HTTP/1.0 404 Not Found'' @ CRLF @ ''Connection: close'' @ CRLF
           @ ''Content-Length: 0'' @ CRLF @ CRLF]
          (notification_data
             (new_client\<lparr>state := CONNECTED, my_id := 3, hanging_get := CS_CONNECTED\<rparr>))))
       = 404"
    by (simp add: prim_defs client_defs Let_def)
  have close1: "GetHeaderValue_string (Recv_loop
          [''HTTP/1.0 500 Internal Server Error'' @ CRLF @ ''Content-Length: 0'' @ CRLF @ CRLF]
          (control_data (new_client\<lparr>state := CONNECTED, my_id := 3,
                       control_socket := CS_CONNECTED,
                       hanging_get := CS_CONNECTED, peers := [7 \<mapsto> ''alice'']\<rparr>)))
          (the (str_find (Recv_loop
          [''HTTP/1.0 500 Internal Server Error'' @ CRLF @ ''Content-Length: 0'' @ CRLF @ CRLF]
          (control_data (new_client\<lparr>state := CONNECTED, my_id := 3,
                       control_socket := CS_CONNECTED,
                       hanging_get := CS_CONNECTED, peers := [7 \<mapsto> ''alice'']\<rparr>)))
             (CRLF @ CRLF) 0)) kConnection = None"
    by (simp add: prim_defs client_defs Let_def)
  note t1 = non_200_response
      [of True "[''HTTP/1.0 500 Internal Server Error'' @ CRLF @ ''Content-Length: 0'' @ CRLF @ CRLF]"
        "new_client\<lparr>state := CONNECTED, my_id := 3, control_socket := CS_CONNECTED,
                       hanging_get := CS_CONNECTED, peers := [7 \<mapsto> ''alice'']\<rparr>" True]
  note t2 = non_200_response
      [of True "[''HTTP/1.0 404 Not Found'' @ CRLF @ ''Connection: close'' @ CRLF
           @ ''Content-Length: 0'' @ CRLF @ CRLF]"
        "new_client\<lparr>state := CONNECTED, my_id := 3, hanging_get := CS_CONNECTED\<rparr>"
        True]
  from t1 h1 h2 close1 have c1: "callbacks (OnRead True True
          [''HTTP/1.0 500 Internal Server Error'' @ CRLF @ ''Content-Length: 0'' @ CRLF @ CRLF]
          (new_client\<lparr>state := CONNECTED, my_id := 3, control_socket := CS_CONNECTED,
                       hanging_get := CS_CONNECTED, peers := [7 \<mapsto> ''alice'']\<rparr>))
       = [Cb_OnDisconnected]
     \<and> hanging_get (OnRead True True
          [''HTTP/1.0 500 Internal Server Error'' @ CRLF @ ''Content-Length: 0'' @ CRLF @ CRLF]
          (new_client\<lparr>state := CONNECTED, my_id := 3, control_socket := CS_CONNECTED,
                       hanging_get := CS_CONNECTED, peers := [7 \<mapsto> ''alice'']\<rparr>))
       = CS_CLOSED"
    by (simp add: Let_def new_client_def)
  from t2 h3 h4 have c2: "callbacks (OnHangingGetRead True True
          [''HTTP/1.0 404 Not Found'' @ CRLF @ ''Connection: close'' @ CRLF
           @ ''Content-Length: 0'' @ CRLF @ CRLF]
          (new_client\<lparr>state := CONNECTED, my_id := 3, hanging_get := CS_CONNECTED\<rparr>))
       = [Cb_OnDisconnected]
     \<and> hanging_get (OnHangingGetRead True True
          [''HTTP/1.0 404 Not Found'' @ CRLF @ ''Connection: close'' @ CRLF
           @ ''Content-Length: 0'' @ CRLF @ CRLF]
          (new_client\<lparr>state := CONNECTED, my_id := 3, hanging_get := CS_CONNECTED\<rparr>))
       = CS_CLOSED"
    by (simp add: Let_def new_client_def)
  from h1 h2 h3 h4 c1 c2 show ?thesis by blast
qed

section \<open>The sign-in response\<close>

text \<open>
  Claim C4. Let the control buffer, after a read event, hold exactly one response with
  status 200, a \<^verbatim>\<open>Pragma\<close> header and a \<^verbatim>\<open>Content-Length\<close> header that gives the
  length of the body, and let the self id be unset. Then \<^verbatim>\<open>OnRead\<close> sets the self id to
  the number after \<^verbatim>\<open>Pragma: \<close>, adds to the peer directory exactly the entries of the
  body's listing whose id is not the self id (a later entry for the same id replacing an
  earlier one; starting from an empty directory these are the whole directory), and
  reports each of them once through \<^verbatim>\<open>OnPeerConnected\<close>, in order, before
  \<^verbatim>\<open>OnSignedIn\<close>. The witness is the example of the specification: the body
  \<^verbatim>\<open>alice,7,1\nbob,8,1\n\<close> with \<^verbatim>\<open>Pragma: 3\<close> gives self id 3 and the directory
  \<open>{7: alice, 8: bob}\<close>.
\<close>

theorem sign_in_response:
  assumes "my_id s = -1"
    and "d = Recv_loop chunks (control_data s)"
    and "str_find d (CRLF @ CRLF) 0 = Some eoh"
    and "str_find d kContentLength 0 = Some f" and "f < eoh"
    and "length d = eoh + 4 + size_t_of_int (atoi (drop (f + length kContentLength) d))"
    and "GetResponseStatus (c_str d) = 200"
    and "str_find d kPragma 0 = Some p" and "p < eoh"
  shows "(let s' = OnRead a b chunks s;
              self = atoi (drop (p + length kPragma) d);
              others = filter (\<lambda>e. fst e \<noteq> self) (spec_listing (drop (eoh + 4) d))
          in my_id s' = self
             \<and> peers s' = peers s ++ map_of (rev others)
             \<and> callbacks s'
                 = callbacks s
                   @ (if GetHeaderValue_string d eoh kConnection = Some ''close''
                      then [Cb_OnMessageSent 0] else [])
                   @ map peer_connected others
                   @ [Cb_OnSignedIn]
             \<and> control_data s' = [])"
proof -
  from OnRead_sign_in [OF assms, of a b] obtain s4 where
    eq: "OnRead a b chunks s
           = (if state s4 = SIGNING_IN
              then snd (Socket_Connect b HangingGet (s4\<lparr>state := CONNECTED\<rparr>)) else s4)"
    and fields: "my_id s4 = atoi (drop (p + length kPragma) d)"
      "peers s4
         = fold add_peer
             (filter (\<lambda>e. fst e \<noteq> atoi (drop (p + length kPragma) d))
                (spec_listing (drop (eoh + 4) d)))
             (peers s)"
      "callbacks s4
         = callbacks s
           @ (if GetHeaderValue_string d eoh kConnection = Some ''close''
              then [Cb_OnMessageSent 0] else [])
           @ map peer_connected
               (filter (\<lambda>e. fst e \<noteq> atoi (drop (p + length kPragma) d))
                  (spec_listing (drop (eoh + 4) d)))
           @ [Cb_OnSignedIn]"
      "control_data s4 = []"
    by blast
  have same: "my_id (OnRead a b chunks s) = my_id s4" "peers (OnRead a b chunks s) = peers s4"
    "callbacks (OnRead a b chunks s) = callbacks s4"
    "control_data (OnRead a b chunks s) = control_data s4"
    by (simp_all add: eq Socket_Connect_def)
  show ?thesis
    unfolding Let_def same fields fold_add_peer by simp
qed

theorem sign_in_response_witness:
  "my_id (new_client\<lparr>state := SIGNING_IN, control_socket := CS_CONNECTED\<rparr>) = -1
   \<and> str_find sign_in_example (CRLF @ CRLF) 0 = Some 46
   \<and> str_find sign_in_example kContentLength 0 = Some 26
   \<and> length sign_in_example
       = 46 + 4 + size_t_of_int (atoi (drop (26 + length kContentLength) sign_in_example))
   \<and> GetResponseStatus (c_str sign_in_example) = 200
   \<and> str_find sign_in_example kPragma 0 = Some 15
   \<and> my_id (OnRead True True [sign_in_example]
               (new_client\<lparr>state := SIGNING_IN, control_socket := CS_CONNECTED\<rparr>)) = 3
   \<and> peers (OnRead True True [sign_in_example]
               (new_client\<lparr>state := SIGNING_IN, control_socket := CS_CONNECTED\<rparr>))
       = [7 \<mapsto> ''alice'', 8 \<mapsto> ''bob'']
   \<and> callbacks (OnRead True True [sign_in_example]
               (new_client\<lparr>state := SIGNING_IN, control_socket := CS_CONNECTED\<rparr>))
       = [Cb_OnPeerConnected 7 ''alice'', Cb_OnPeerConnected 8 ''bob'', Cb_OnSignedIn]"
proof -
  define s0 where "s0 = new_client\<lparr>state := SIGNING_IN, control_socket := CS_CONNECTED\<rparr>"
  have h1: "my_id s0 = -1" by (simp add: s0_def new_client_def)
  have h2: "sign_in_example = Recv_loop [sign_in_example] (control_data s0)"
    by (simp add: s0_def new_client_def sign_in_example_def)
  have h3: "str_find sign_in_example (CRLF @ CRLF) 0 = Some 46"
    by (simp add: sign_in_example_def prim_defs)
  have h4: "str_find sign_in_example kContentLength 0 = Some 26"
    by (simp add: sign_in_example_def prim_defs kContentLength_def)
  have h5: "(26 :: nat) < 46" by simp
  have h6: "length sign_in_example
       = 46 + 4 + size_t_of_int (atoi (drop (26 + length kContentLength) sign_in_example))"
    by (simp add: sign_in_example_def prim_defs kContentLength_def)
  have h7: "GetResponseStatus (c_str sign_in_example) = 200"
    by (simp add: sign_in_example_def prim_defs GetResponseStatus_def)
  have h8: "str_find sign_in_example kPragma 0 = Some 15"
    by (simp add: sign_in_example_def prim_defs kPragma_def)
  have h9: "(15 :: nat) < 46" by simp
  note t = sign_in_response [OF h1 h2 h3 h4 h5 h6 h7 h8 h9, of True True]
  have self: "atoi (drop (15 + length kPragma) sign_in_example) = 3"
    by (simp add: sign_in_example_def prim_defs kPragma_def)
  have l: "spec_listing (drop (46 + 4) sign_in_example) = [(7, ''alice''), (8, ''bob'')]"
    by (simp add: sign_in_example_def prim_defs spec_listing_def spec_lines_def spec_entry_def
        List.map_filter_simps)
  have c: "GetHeaderValue_string sign_in_example 46 kConnection = None"
    by (simp add: sign_in_example_def prim_defs GetHeaderValue_string_def kConnection_def)
  from t have "my_id (OnRead True True [sign_in_example] s0) = 3
     \<and> peers (OnRead True True [sign_in_example] s0) = [7 \<mapsto> ''alice'', 8 \<mapsto> ''bob'']
     \<and> callbacks (OnRead True True [sign_in_example] s0)
         = [Cb_OnPeerConnected 7 ''alice'', Cb_OnPeerConnected 8 ''bob'', Cb_OnSignedIn]"
    unfolding Let_def self l c
    by (simp add: peer_connected_def s0_def new_client_def)
  with h1 h3 h4 h6 h7 h8 show ?thesis
    unfolding s0_def by blast
qed

end
